theory Spec2Isabelle
  imports Main "HOL-Library.Word"
begin

section \<open>Values shared by the three programs\<close>

text \<open>
  The repository holds three programs with the same flow and no shared module:
  \<^verbatim>\<open>extract_images_gui.py\<close> (PySimpleGUI), \<^verbatim>\<open>extractor_pro.py\<close> (PyQt5) and
  \<^verbatim>\<open>main.py\<close> (Kivy). Python \<^verbatim>\<open>bytes\<close> are lists of 8-bit words, \<^verbatim>\<open>str\<close> is
  \<open>string\<close>, and every exception the modelled code can meet is a value of \<open>error\<close>.
  Page and image counters come from \<^verbatim>\<open>range\<close> and \<^verbatim>\<open>enumerate\<close>, so they are
  natural numbers.
\<close>

type_synonym bytes = "8 word list"

datatype error =
    FileDataError            \<comment> \<open>\<^verbatim>\<open>fitz.open\<close> on a missing, unreadable or invalid file\<close>
  | UnidentifiedImageError   \<comment> \<open>\<^verbatim>\<open>PIL.Image.open\<close> on bytes it cannot decode\<close>
  | ImageSaveError           \<comment> \<open>\<^verbatim>\<open>img.save(buf, format='PNG')\<close> on a mode PNG cannot hold\<close>
  | OSError                  \<comment> \<open>\<^verbatim>\<open>open\<close>, \<^verbatim>\<open>os.makedirs\<close>: any failure of the file system\<close>
  | KeyError
  | IndexError
  | ValueError

subsection \<open>Decimal rendering of counters\<close>

text \<open>
  \<^verbatim>\<open>str(n)\<close>, and \<^verbatim>\<open>{n}\<close> inside an f-string, for a non-negative integer.
\<close>

definition digit_char :: "nat \<Rightarrow> char" where
  "digit_char d = char_of (48 + d)"

fun str_nat :: "nat \<Rightarrow> string" where
  "str_nat n = (if n < 10 then [digit_char n]
                else str_nat (n div 10) @ [digit_char (n mod 10)])"

declare str_nat.simps [simp del]

definition digit_val :: "char \<Rightarrow> nat" where
  "digit_val c = of_char c - 48"

definition nat_of_str :: "string \<Rightarrow> nat" where
  "nat_of_str s = foldl (\<lambda>a c. 10 * a + digit_val c) 0 s"

subsection \<open>The PDF library\<close>

text \<open>
  PyMuPDF is outside the repository. A document handle is what the programs read from it:
  for each page the tuples that \<^verbatim>\<open>page.get_images(full=True)\<close> (or
  \<^verbatim>\<open>doc.get_page_images(n)\<close>) lists, whose component 0 is the xref, and the bytes that
  \<^verbatim>\<open>doc.extract_image(xref)['image']\<close> resolves an xref to. \<^verbatim>\<open>fitz.open\<close> is a
  partial map from paths to handles; a path outside it raises.
\<close>

type_synonym img_entry = "nat \<times> nat list"

record document =
  page_images :: "img_entry list list"
  image_bytes :: "nat \<Rightarrow> bytes"

type_synonym pdf_library = "string \<rightharpoonup> document"

definition fitz_open :: "pdf_library \<Rightarrow> string \<Rightarrow> error + document" where
  "fitz_open lib pdf_path =
     (case lib pdf_path of None \<Rightarrow> Inl FileDataError | Some doc \<Rightarrow> Inr doc)"

definition page_count :: "document \<Rightarrow> nat" where
  "page_count doc = length (page_images doc)"

definition get_images :: "document \<Rightarrow> nat \<Rightarrow> img_entry list" where
  "get_images doc page_idx = page_images doc ! page_idx"

definition extract_image :: "document \<Rightarrow> nat \<Rightarrow> bytes" where
  "extract_image doc xref = image_bytes doc xref"

text \<open>The number of embedded image references of a document, summed over its pages.\<close>

definition image_total :: "document \<Rightarrow> nat" where
  "image_total doc = sum_list (map length (page_images doc))"

section \<open>The harvester of \<^verbatim>\<open>extract_images_gui.py\<close>\<close>

text \<open>
  \<^verbatim>\<open>extract_images_from_pdf\<close>: the inner loop runs over
  \<^verbatim>\<open>enumerate(page.get_images(full=True))\<close> and appends
  \<^verbatim>\<open>(page_idx+1, img_idx+1, base_img['image'])\<close>; the outer loop runs over
  \<^verbatim>\<open>range(len(doc))\<close>.
\<close>

type_synonym image_record = "nat \<times> nat \<times> bytes"

fun harvest_page :: "document \<Rightarrow> nat \<Rightarrow> (nat \<times> img_entry) list \<Rightarrow>
    image_record list \<Rightarrow> image_record list" where
  "harvest_page doc page_idx [] images = images"
| "harvest_page doc page_idx ((img_idx, img) # rest) images =
     (let xref = fst img;
          base_img = extract_image doc xref
      in harvest_page doc page_idx rest (images @ [(page_idx + 1, img_idx + 1, base_img)]))"

fun harvest_pages :: "document \<Rightarrow> nat list \<Rightarrow> image_record list \<Rightarrow> image_record list" where
  "harvest_pages doc [] images = images"
| "harvest_pages doc (page_idx # rest) images =
     harvest_pages doc rest
       (harvest_page doc page_idx (enumerate 0 (get_images doc page_idx)) images)"

definition extract_images_from_pdf :: "pdf_library \<Rightarrow> string \<Rightarrow> error + image_record list" where
  "extract_images_from_pdf lib pdf_path =
     (case fitz_open lib pdf_path of
        Inl e \<Rightarrow> Inl e
      | Inr doc \<Rightarrow> Inr (harvest_pages doc [0..<page_count doc] []))"

section \<open>The harvester of \<^verbatim>\<open>extractor_pro.py\<close>\<close>

text \<open>
  \<^verbatim>\<open>ExtractThread.run\<close> has the same two loops and emits
  \<^verbatim>\<open>progressChanged(page_number+1, total_pages)\<close> after each page, then
  \<^verbatim>\<open>finished(images)\<close>. The result is the list of progress signals and the list
  carried by \<^verbatim>\<open>finished\<close>; when \<^verbatim>\<open>fitz.open\<close> raises, nothing is emitted.
\<close>

fun run_pages :: "document \<Rightarrow> nat \<Rightarrow> nat list \<Rightarrow> (nat \<times> nat) list \<times> image_record list \<Rightarrow>
    (nat \<times> nat) list \<times> image_record list" where
  "run_pages doc total_pages [] st = st"
| "run_pages doc total_pages (page_number # rest) (progress, images) =
     (let pixlist = get_images doc page_number;
          images' = harvest_page doc page_number (enumerate 0 pixlist) images
      in run_pages doc total_pages rest
           (progress @ [(page_number + 1, total_pages)], images'))"

definition ExtractThread_run :: "pdf_library \<Rightarrow> string \<Rightarrow>
    error + ((nat \<times> nat) list \<times> image_record list)" where
  "ExtractThread_run lib pdf_path =
     (case fitz_open lib pdf_path of
        Inl e \<Rightarrow> Inl e
      | Inr doc \<Rightarrow>
          (let total_pages = page_count doc
           in Inr (run_pages doc total_pages [0..<total_pages] ([], []))))"

section \<open>The image library\<close>

text \<open>
  Pillow is outside the repository. The programs use three of its operations:
  \<^verbatim>\<open>Image.open\<close>, which raises on bytes it cannot identify; \<^verbatim>\<open>img.thumbnail(size)\<close>;
  and \<^verbatim>\<open>img.save(buf, format='PNG')\<close>, which raises for an image mode PNG cannot hold.
  They are parameters of the model, over any type \<open>'img\<close> of decoded images.
\<close>

record 'img pillow =
  Image_open :: "bytes \<Rightarrow> 'img option"
  thumbnail :: "'img \<Rightarrow> nat \<times> nat \<Rightarrow> 'img"
  save_png :: "'img \<Rightarrow> bytes option"

section \<open>Paths and the file system\<close>

text \<open>
  \<^verbatim>\<open>str.split(sep)\<close> for a one-character separator, and POSIX \<^verbatim>\<open>os.path.join\<close> of
  two components.
\<close>

fun split_from :: "char \<Rightarrow> string \<Rightarrow> string \<Rightarrow> string list" where
  "split_from sep cur [] = [cur]"
| "split_from sep cur (c # cs) =
     (if c = sep then cur # split_from sep [] cs else split_from sep (cur @ [c]) cs)"

definition str_split :: "string \<Rightarrow> char \<Rightarrow> string list" where
  "str_split s sep = split_from sep [] s"

definition path_join :: "string \<Rightarrow> string \<Rightarrow> string" where
  "path_join a b =
     (if take 1 b = ''/'' then b
      else if a = [] \<or> last a = CHR ''/'' then a @ b
      else a @ ''/'' @ b)"

text \<open>
  The operating system is outside the repository too. A file system has directories,
  files with their bytes, and a set of places where the system refuses to create or write
  (permissions, quota, read-only media). A path names a node: whether it is absolute, and
  its non-empty segments; \<^verbatim>\<open>.\<close>, \<^verbatim>\<open>..\<close> and links are not resolved. The root and the
  working directory always exist. Every failure is Python's \<^verbatim>\<open>OSError\<close>, the parent of
  \<^verbatim>\<open>FileNotFoundError\<close>, \<^verbatim>\<open>FileExistsError\<close>, \<^verbatim>\<open>PermissionError\<close> and the rest.
\<close>

type_synonym node = "bool \<times> string list"

record filesystem =
  dirs :: "node set"
  files :: "node \<rightharpoonup> bytes"
  denied :: "node set"

definition node_of :: "string \<Rightarrow> node" where
  "node_of path = (take 1 path = ''/'', filter (\<lambda>s. s \<noteq> []) (str_split path CHR ''/''))"

definition parent :: "node \<Rightarrow> node" where
  "parent n = (fst n, butlast (snd n))"

definition ancestors :: "node \<Rightarrow> node list" where
  "ancestors n = map (\<lambda>k. (fst n, take k (snd n))) [1..<length (snd n) + 1]"

definition is_dir :: "filesystem \<Rightarrow> node \<Rightarrow> bool" where
  "is_dir fs n = (snd n = [] \<or> n \<in> dirs fs)"

definition is_file :: "filesystem \<Rightarrow> node \<Rightarrow> bool" where
  "is_file fs n = (files fs n \<noteq> None)"

definition path_exists :: "filesystem \<Rightarrow> string \<Rightarrow> bool" where
  "path_exists fs path = (path \<noteq> [] \<and> (is_dir fs (node_of path) \<or> is_file fs (node_of path)))"

definition path_isfile :: "filesystem \<Rightarrow> string \<Rightarrow> bool" where
  "path_isfile fs path = (path \<noteq> [] \<and> is_file fs (node_of path))"

definition read_file :: "filesystem \<Rightarrow> string \<Rightarrow> bytes option" where
  "read_file fs path = files fs (node_of path)"

text \<open>
  \<^verbatim>\<open>os.makedirs(name, exist_ok=...)\<close>: creates the directory and every missing ancestor.
  It fails on the empty name, on an existing directory unless \<^verbatim>\<open>exist_ok\<close>, when a file
  is in the way, and when the system refuses one of the directories it has to create. A
  failing call is taken to create nothing.
\<close>

definition makedirs :: "filesystem \<Rightarrow> string \<Rightarrow> bool \<Rightarrow> error + filesystem" where
  "makedirs fs name exist_ok =
     (if name = [] then Inl OSError
      else let n = node_of name in
        if is_dir fs n then (if exist_ok then Inr fs else Inl OSError)
        else if list_ex (\<lambda>a. is_file fs a \<or> (\<not> is_dir fs a \<and> a \<in> denied fs)) (ancestors n)
          then Inl OSError
        else Inr (fs\<lparr>dirs := dirs fs \<union> set (ancestors n)\<rparr>))"

text \<open>
  \<^verbatim>\<open>with open(path, 'wb') as f: f.write(data)\<close>: fails when the path is empty or ends in
  a separator, names a directory, lies in no existing directory, or the system refuses it;
  otherwise the file holds exactly \<open>data\<close> afterwards, whatever it held before.
\<close>

definition write_file :: "filesystem \<Rightarrow> string \<Rightarrow> bytes \<Rightarrow> error + filesystem" where
  "write_file fs path data =
     (let n = node_of path in
      if path = [] \<or> last path = CHR ''/'' \<or> is_dir fs n \<or> \<not> is_dir fs (parent n)
         \<or> is_file fs (parent n) \<or> n \<in> denied fs
      then Inl OSError
      else Inr (fs\<lparr>files := (files fs)(n \<mapsto> data)\<rparr>))"

section \<open>\<^verbatim>\<open>extract_images_gui.py\<close>: thumbnails, selection window, download\<close>

text \<open>\<^verbatim>\<open>create_thumbnail(image_bytes, max_size=(150,150))\<close>.\<close>

definition create_thumbnail :: "'img pillow \<Rightarrow> bytes \<Rightarrow> nat \<times> nat \<Rightarrow> error + bytes" where
  "create_thumbnail pil image_data max_size =
     (case Image_open pil image_data of
        None \<Rightarrow> Inl UnidentifiedImageError
      | Some img \<Rightarrow>
          (case save_png pil (thumbnail pil img max_size) of
             None \<Rightarrow> Inl ImageSaveError
           | Some bio \<Rightarrow> Inr bio))"

text \<open>
  \<^verbatim>\<open>build_selection_window(images)\<close>: one row per record, a checkbox labelled
  \<^verbatim>\<open>Page p, Image i\<close> under the key \<^verbatim>\<open>-CHKidx-\<close> beside the thumbnail. An exception of
  \<^verbatim>\<open>create_thumbnail\<close> leaves the function: no window is built.
\<close>

record gui_row =
  row_label :: string
  row_key :: string
  row_thumb :: bytes

fun build_rows :: "'img pillow \<Rightarrow> (nat \<times> image_record) list \<Rightarrow>
    (string \<times> nat) list \<times> gui_row list \<Rightarrow> error + ((string \<times> nat) list \<times> gui_row list)" where
  "build_rows pil [] acc = Inr acc"
| "build_rows pil ((idx, (pnum, inum, img_data)) # rest) (checkbox_keys, img_rows) =
     (let key = ''-CHK'' @ str_nat idx @ ''-''
      in case create_thumbnail pil img_data (150, 150) of
           Inl e \<Rightarrow> Inl e
         | Inr thumb \<Rightarrow>
             build_rows pil rest
               (checkbox_keys @ [(key, idx)],
                img_rows @ [\<lparr>row_label = ''Page '' @ str_nat pnum @ '', Image '' @ str_nat inum,
                             row_key = key, row_thumb = thumb\<rparr>]))"

definition build_selection_window :: "'img pillow \<Rightarrow> image_record list \<Rightarrow>
    error + ((string \<times> nat) list \<times> gui_row list)" where
  "build_selection_window pil images = build_rows pil (enumerate 0 images) ([], [])"

text \<open>
  The \<^verbatim>\<open>Download\<close> branch of \<^verbatim>\<open>main\<close>: \<open>v2\<close> is the dictionary of window values,
  read with \<^verbatim>\<open>v2.get(key)\<close>. The loop returns the file system it reached and either the
  exception that left it or the final \<^verbatim>\<open>count\<close>.
\<close>

definition gui_fname :: "nat \<Rightarrow> nat \<Rightarrow> string" where
  "gui_fname p i = ''img_p'' @ str_nat p @ ''_i'' @ str_nat i @ ''.png''"

fun download_loop :: "string \<Rightarrow> (string \<rightharpoonup> bool) \<Rightarrow> image_record list \<Rightarrow>
    (string \<times> nat) list \<Rightarrow> filesystem \<Rightarrow> nat \<Rightarrow> filesystem \<times> (error + nat)" where
  "download_loop out v2 images [] fs count = (fs, Inr count)"
| "download_loop out v2 images ((key, idx) # rest) fs count =
     (if v2 key = Some True then
        (if idx < length images then
           (case images ! idx of (p, i, data) \<Rightarrow>
              (let fname = gui_fname p i;
                   fpath = path_join out fname
               in case write_file fs fpath data of
                    Inl e \<Rightarrow> (fs, Inl e)
                  | Inr fs' \<Rightarrow> download_loop out v2 images rest fs' (count + 1)))
         else (fs, Inl IndexError))
      else download_loop out v2 images rest fs count)"

text \<open>
  \<^verbatim>\<open>main\<close> is one \<^verbatim>\<open>try\<close> block around two event loops and ends in
  \<^verbatim>\<open>except Exception as e: ... sg.popup_error(f'Unexpected error: {e}')\<close>. The two
  handlers below are the bodies of \<^verbatim>\<open>if evt == 'Load'\<close> and \<^verbatim>\<open>if e2 == 'Download'\<close>
  with that handler applied: an exception ends \<^verbatim>\<open>main\<close> after the error popup.
  The log file is left out.
\<close>

datatype popup = PopupError string | PopupUnexpected error | PopupInfo "string list"

record selection_window =
  sel_keys :: "(string \<times> nat) list"
  sel_rows :: "gui_row list"
  sel_images :: "image_record list"
  sel_out :: string
  sel_open :: bool

datatype load_result = Continue | Selecting selection_window | Ended

definition gui_load :: "'img pillow \<Rightarrow> pdf_library \<Rightarrow> filesystem \<Rightarrow> string \<Rightarrow> string \<Rightarrow>
    filesystem \<times> popup list \<times> load_result" where
  "gui_load pil lib fs pdf out =
     (if pdf = [] \<or> out = [] then
        (fs, [PopupError ''Both PDF and output folder are required!''], Continue)
      else if \<not> path_isfile fs pdf then (fs, [PopupError ''PDF not found!''], Continue)
      else case makedirs fs out True of
        Inl e \<Rightarrow> (fs, [PopupUnexpected e], Ended)
      | Inr fs' \<Rightarrow>
          (case extract_images_from_pdf lib pdf of
             Inl e \<Rightarrow> (fs', [PopupUnexpected e], Ended)
           | Inr images \<Rightarrow>
               if images = [] then (fs', [PopupInfo [''No images found.'']], Continue)
               else case build_selection_window pil images of
                 Inl e \<Rightarrow> (fs', [PopupUnexpected e], Ended)
               | Inr (checkbox_keys, img_rows) \<Rightarrow>
                   (fs', [], Selecting \<lparr>sel_keys = checkbox_keys, sel_rows = img_rows,
                      sel_images = images, sel_out = out, sel_open = True\<rparr>)))"

definition gui_download :: "filesystem \<Rightarrow> selection_window \<Rightarrow> (string \<rightharpoonup> bool) \<Rightarrow>
    filesystem \<times> selection_window \<times> popup" where
  "gui_download fs win v2 =
     (case download_loop (sel_out win) v2 (sel_images win) (sel_keys win) fs 0 of
        (fs', Inl e) \<Rightarrow> (fs', win, PopupUnexpected e)
      | (fs', Inr count) \<Rightarrow>
          (fs', win\<lparr>sel_open := False\<rparr>,
           PopupInfo [''Done'', str_nat count @ '' images saved to '' @ sel_out win]))"

section \<open>\<^verbatim>\<open>main.py\<close>: tiles, extraction, saving\<close>

text \<open>
  An \<^verbatim>\<open>ImageItem\<close> keeps \<^verbatim>\<open>img_data\<close> and \<^verbatim>\<open>name\<close>, owns a checkbox (inactive when
  created) and shows the texture that \<^verbatim>\<open>_get_texture\<close> builds in the constructor:
  \<^verbatim>\<open>Image.open\<close>, \<^verbatim>\<open>thumbnail((300, 300))\<close>, \<^verbatim>\<open>save(buf, format='PNG')\<close>.
\<close>

record ImageItem =
  img_data :: bytes
  name :: string
  checkbox :: bool
  texture :: bytes

definition get_texture :: "'img pillow \<Rightarrow> bytes \<Rightarrow> error + bytes" where
  "get_texture pil data =
     (case Image_open pil data of
        None \<Rightarrow> Inl UnidentifiedImageError
      | Some pil_image \<Rightarrow>
          (case save_png pil (thumbnail pil pil_image (300, 300)) of
             None \<Rightarrow> Inl ImageSaveError
           | Some buf \<Rightarrow> Inr buf))"

definition ImageItem_init :: "'img pillow \<Rightarrow> bytes \<Rightarrow> string \<Rightarrow> error + ImageItem" where
  "ImageItem_init pil data nm =
     (case get_texture pil data of
        Inl e \<Rightarrow> Inl e
      | Inr tex \<Rightarrow> Inr \<lparr>img_data = data, name = nm, checkbox = False, texture = tex\<rparr>)"

text \<open>
  The \<^verbatim>\<open>PDFExtractor\<close> widget: the grid \<^verbatim>\<open>container\<close>, the list \<^verbatim>\<open>extracted\<close>,
  whether the save popup is open, and the texts of the popups it has shown. A method
  returns the widget as it leaves it and the exception, if one left the method.
\<close>

record PDFExtractor =
  container :: "ImageItem list"
  extracted :: "ImageItem list"
  save_popup_open :: bool
  done_popups :: "string list"

definition item_name :: "nat \<Rightarrow> nat \<Rightarrow> string" where
  "item_name page_num idx = ''p'' @ str_nat (page_num + 1) @ ''_i'' @ str_nat (idx + 1) @ ''.png''"

fun extract_page :: "'img pillow \<Rightarrow> document \<Rightarrow> nat \<Rightarrow> (nat \<times> img_entry) list \<Rightarrow>
    PDFExtractor \<Rightarrow> PDFExtractor \<times> error option" where
  "extract_page pil doc page_num [] self = (self, None)"
| "extract_page pil doc page_num ((idx, img) # rest) self =
     (let xref = fst img;
          data = extract_image doc xref;
          nm = item_name page_num idx
      in case ImageItem_init pil data nm of
           Inl e \<Rightarrow> (self, Some e)
         | Inr item \<Rightarrow>
             extract_page pil doc page_num rest
               (self\<lparr>container := container self @ [item],
                     extracted := extracted self @ [item]\<rparr>))"

fun extract_pages :: "'img pillow \<Rightarrow> document \<Rightarrow> nat list \<Rightarrow> PDFExtractor \<Rightarrow>
    PDFExtractor \<times> error option" where
  "extract_pages pil doc [] self = (self, None)"
| "extract_pages pil doc (page_num # rest) self =
     (case extract_page pil doc page_num (enumerate 0 (get_images doc page_num)) self of
        (self', Some e) \<Rightarrow> (self', Some e)
      | (self', None) \<Rightarrow> extract_pages pil doc rest self')"

definition extract_images :: "'img pillow \<Rightarrow> pdf_library \<Rightarrow> PDFExtractor \<Rightarrow> string \<Rightarrow>
    PDFExtractor \<times> error option" where
  "extract_images pil lib self pdf_path =
     (let self1 = self\<lparr>container := []\<rparr>
      in case fitz_open lib pdf_path of
           Inl e \<Rightarrow> (self1, Some e)
         | Inr doc \<Rightarrow> extract_pages pil doc [0..<page_count doc] (self1\<lparr>extracted := []\<rparr>))"

text \<open>
  \<^verbatim>\<open>_do_save(folder)\<close>: creates the folder when \<^verbatim>\<open>os.path.exists\<close> denies it, writes
  the data of every item whose checkbox is active under the item's name, then dismisses the
  save popup and opens one that reads \<^verbatim>\<open>Saved count image(s).\<close>
\<close>

fun save_loop :: "string \<Rightarrow> ImageItem list \<Rightarrow> filesystem \<Rightarrow> nat \<Rightarrow>
    filesystem \<times> (error + nat)" where
  "save_loop folder [] fs count = (fs, Inr count)"
| "save_loop folder (item # rest) fs count =
     (if checkbox item then
        (case write_file fs (path_join folder (name item)) (img_data item) of
           Inl e \<Rightarrow> (fs, Inl e)
         | Inr fs' \<Rightarrow> save_loop folder rest fs' (count + 1))
      else save_loop folder rest fs count)"

definition do_save :: "filesystem \<Rightarrow> PDFExtractor \<Rightarrow> string \<Rightarrow>
    filesystem \<times> PDFExtractor \<times> error option" where
  "do_save fs self folder =
     (case (if \<not> path_exists fs folder then makedirs fs folder False else Inr fs) of
        Inl e \<Rightarrow> (fs, self, Some e)
      | Inr fs1 \<Rightarrow>
          (case save_loop folder (extracted self) fs1 0 of
             (fs2, Inl e) \<Rightarrow> (fs2, self, Some e)
           | (fs2, Inr count) \<Rightarrow>
               (fs2,
                self\<lparr>save_popup_open := False,
                     done_popups := done_popups self @ [''Saved '' @ str_nat count @ '' image(s).'']\<rparr>,
                None)))"

section \<open>\<^verbatim>\<open>extractor_pro.py\<close>: thumbnails, settings, export\<close>

text \<open>
  \<^verbatim>\<open>str.format(page=..., idx=...)\<close> on the filename pattern. Literal text is copied,
  \<^verbatim>\<open>{{\<close> and \<^verbatim>\<open>}}\<close> stand for one brace, \<^verbatim>\<open>{page}\<close> and \<^verbatim>\<open>{idx}\<close> are
  replaced. A lone brace raises \<^verbatim>\<open>ValueError\<close>, an empty or numeric field
  \<^verbatim>\<open>IndexError\<close> (there are no positional arguments), another name \<^verbatim>\<open>KeyError\<close>.
  Fields with a conversion, a format specification, an attribute or an index
  (\<^verbatim>\<open>!\<close>, \<^verbatim>\<open>:\<close>, \<^verbatim>\<open>.\<close>, \<^verbatim>\<open>[\<close>) are beyond this model and answer \<open>NotModelled\<close>.
\<close>

datatype format_error = Raises error | NotModelled

definition field_value :: "string \<Rightarrow> string \<Rightarrow> string \<Rightarrow> format_error + string" where
  "field_value page idx field =
     (if field = ''page'' then Inr page
      else if field = ''idx'' then Inr idx
      else if CHR ''{'' \<in> set field then Inl (Raises ValueError)
      else if list_ex (\<lambda>c. c \<in> set ''!:.['') field then Inl NotModelled
      else if list_all (\<lambda>c. c \<in> set ''0123456789'') field then Inl (Raises IndexError)
      else Inl (Raises KeyError))"

definition emit :: "string \<Rightarrow> format_error + string \<Rightarrow> format_error + string" where
  "emit v r = (case r of Inl e \<Rightarrow> Inl e | Inr s \<Rightarrow> Inr (v @ s))"

fun format_from :: "string \<Rightarrow> string \<Rightarrow> string option \<Rightarrow> string \<Rightarrow> format_error + string" where
  "format_from page idx None [] = Inr []"
| "format_from page idx (Some field) [] = Inl (Raises ValueError)"
| "format_from page idx None [c] =
     (if c = CHR ''{'' \<or> c = CHR ''}'' then Inl (Raises ValueError) else Inr [c])"
| "format_from page idx None (c # d # cs) =
     (if c = CHR ''{'' then
        (if d = CHR ''{'' then emit [c] (format_from page idx None cs)
         else format_from page idx (Some []) (d # cs))
      else if c = CHR ''}'' then
        (if d = CHR ''}'' then emit [c] (format_from page idx None cs)
         else Inl (Raises ValueError))
      else emit [c] (format_from page idx None (d # cs)))"
| "format_from page idx (Some field) (c # cs) =
     (if c = CHR ''}'' then
        (case field_value page idx field of
           Inl e \<Rightarrow> Inl e
         | Inr v \<Rightarrow> emit v (format_from page idx None cs))
      else format_from page idx (Some (field @ [c])) cs)"

definition str_format :: "string \<Rightarrow> string \<Rightarrow> string \<Rightarrow> format_error + string" where
  "str_format pat page idx = format_from page idx None pat"

text \<open>
  A \<^verbatim>\<open>QCheckBox\<close> has its text and its check state. \<^verbatim>\<open>self.settings\<close> is a dictionary
  with the keys \<^verbatim>\<open>pattern\<close>, \<^verbatim>\<open>outdir\<close> and \<^verbatim>\<open>quality\<close>, set in \<^verbatim>\<open>_init_ui\<close> and
  rewritten by \<^verbatim>\<open>open_settings\<close> when the dialog is accepted.
\<close>

record QCheckBox =
  chk_text :: string
  chk_checked :: bool

record settings =
  pattern :: string
  outdir :: string
  quality :: nat

record MainApp =
  thumbs :: "(QCheckBox \<times> bytes) list"
  grid :: "(nat \<times> nat \<times> bytes) list"
  app_settings :: settings
  progress_maximum :: nat
  progress_value :: nat
  logView :: "string list"
  btnExport_enabled :: bool

definition init_settings :: "string \<Rightarrow> settings" where
  "init_settings home = \<lparr>pattern = ''img_P{page}_I{idx}.png'', outdir = home, quality = 90\<rparr>"

definition open_settings :: "MainApp \<Rightarrow> (string \<times> string \<times> nat) option \<Rightarrow> MainApp" where
  "open_settings self dlg =
     (case dlg of
        None \<Rightarrow> self
      | Some (namingPattern, defaultFolder, jpegQuality) \<Rightarrow>
          self\<lparr>app_settings := \<lparr>pattern = namingPattern, outdir = defaultFolder,
                                 quality = jpegQuality\<rparr>,
               logView := logView self @ [''Settings updated'']\<rparr>)"

text \<open>
  \<^verbatim>\<open>_bytes_to_pixmap\<close> decodes and saves as PNG without scaling; \<^verbatim>\<open>display_thumbs\<close>
  resets the grid and \<^verbatim>\<open>self.thumbs\<close>, adds one frame and one
  \<^verbatim>\<open>(chk, data)\<close> pair per record, four frames to a row, and then enables the export
  button and logs the number of thumbnails.
\<close>

definition bytes_to_pixmap :: "'img pillow \<Rightarrow> bytes \<Rightarrow> error + bytes" where
  "bytes_to_pixmap pil data_bytes =
     (case Image_open pil data_bytes of
        None \<Rightarrow> Inl UnidentifiedImageError
      | Some img \<Rightarrow>
          (case save_png pil img of None \<Rightarrow> Inl ImageSaveError | Some buf \<Rightarrow> Inr buf))"

definition chk_label :: "nat \<Rightarrow> nat \<Rightarrow> string" where
  "chk_label page idx = ''P'' @ str_nat page @ ''-I'' @ str_nat idx"

fun display_loop :: "'img pillow \<Rightarrow> image_record list \<Rightarrow> nat \<Rightarrow> nat \<Rightarrow> MainApp \<Rightarrow>
    MainApp \<times> error option" where
  "display_loop pil [] row col self = (self, None)"
| "display_loop pil ((page, idx, data) # rest) row col self =
     (case bytes_to_pixmap pil data of
        Inl e \<Rightarrow> (self, Some e)
      | Inr pix \<Rightarrow>
          (let chk = \<lparr>chk_text = chk_label page idx, chk_checked = False\<rparr>;
               self' = self\<lparr>grid := grid self @ [(row, col, pix)],
                            thumbs := thumbs self @ [(chk, data)]\<rparr>
           in if col + 1 > 3 then display_loop pil rest (row + 1) 0 self'
              else display_loop pil rest row (col + 1) self'))"

definition display_thumbs :: "'img pillow \<Rightarrow> MainApp \<Rightarrow> image_record list \<Rightarrow>
    MainApp \<times> error option" where
  "display_thumbs pil self images =
     (case display_loop pil images 0 0 (self\<lparr>grid := [], thumbs := []\<rparr>) of
        (self', Some e) \<Rightarrow> (self', Some e)
      | (self', None) \<Rightarrow>
          (self'\<lparr>btnExport_enabled := True,
                 logView := logView self' @
                   [''Displayed '' @ str_nat (length (thumbs self')) @ '' thumbnails'']\<rparr>,
           None))"

text \<open>
  \<^verbatim>\<open>export_selected\<close>: \<open>out\<close> is what the directory dialog returned (empty when
  cancelled). The file name is the pattern formatted with
  \<^verbatim>\<open>chk.text().split('-')[0][1:]\<close> and \<^verbatim>\<open>chk.text().split('-')[1][1:]\<close>.
\<close>

definition export_fname :: "string \<Rightarrow> QCheckBox \<Rightarrow> format_error + string" where
  "export_fname pat chk =
     (let parts = str_split (chk_text chk) CHR ''-''
      in if length parts < 2 then Inl (Raises IndexError)
         else str_format pat (drop 1 (parts ! 0)) (drop 1 (parts ! 1)))"

fun export_loop :: "string \<Rightarrow> (QCheckBox \<times> bytes) list \<Rightarrow> filesystem \<times> MainApp \<Rightarrow> nat \<Rightarrow>
    (filesystem \<times> MainApp) \<times> (format_error + nat)" where
  "export_loop out [] st count = (st, Inr count)"
| "export_loop out ((chk, data) # rest) (fs, self) count =
     (if \<not> chk_checked chk then export_loop out rest (fs, self) count
      else case export_fname (pattern (app_settings self)) chk of
        Inl e \<Rightarrow> ((fs, self), Inl e)
      | Inr fname \<Rightarrow>
          (case write_file fs (path_join out fname) data of
             Inl e \<Rightarrow> ((fs, self), Inl (Raises e))
           | Inr fs' \<Rightarrow>
               export_loop out rest (fs', self\<lparr>progress_value := count + 1\<rparr>) (count + 1)))"

definition export_selected :: "filesystem \<Rightarrow> MainApp \<Rightarrow> string \<Rightarrow>
    (filesystem \<times> MainApp) \<times> format_error option" where
  "export_selected fs self out =
     (if out = [] then ((fs, self), None)
      else
        (let self1 = self\<lparr>logView := logView self @ [''Exporting to '' @ out]\<rparr>;
             total = length (filter (\<lambda>(chk, data). chk_checked chk) (thumbs self1));
             self2 = self1\<lparr>progress_maximum := total\<rparr>
         in case export_loop out (thumbs self2) (fs, self2) 0 of
              (st, Inl e) \<Rightarrow> (st, Some e)
            | ((fs', self3), Inr count) \<Rightarrow>
                ((fs', self3\<lparr>logView := logView self3 @
                     [''Exported '' @ str_nat count @ ''/'' @ str_nat total @ '' images'']\<rparr>),
                 None)))"

section \<open>Notions used to state the results\<close>

text \<open>
  The records of a run of pages whose first page has 0-based number \<open>k\<close>, written
  without loops or accumulators; the harvest loops are shown to compute it.
\<close>

fun records_from :: "document \<Rightarrow> nat \<Rightarrow> img_entry list list \<Rightarrow> image_record list" where
  "records_from doc k [] = []"
| "records_from doc k (pg # pgs) =
     map (\<lambda>(i, img). (k + 1, i + 1, extract_image doc (fst img))) (enumerate 0 pg)
       @ records_from doc (k + 1) pgs"

definition page_records :: "document \<Rightarrow> nat \<Rightarrow> image_record list" where
  "page_records doc page_idx =
     map (\<lambda>(img_idx, img). (page_idx + 1, img_idx + 1, extract_image doc (fst img)))
       (enumerate 0 (get_images doc page_idx))"

definition page_number :: "image_record \<Rightarrow> nat" where
  "page_number r = fst r"

definition image_index :: "image_record \<Rightarrow> nat" where
  "image_index r = fst (snd r)"

definition raw_bytes :: "image_record \<Rightarrow> bytes" where
  "raw_bytes r = snd (snd r)"

definition page_index_pair :: "image_record \<Rightarrow> nat \<times> nat" where
  "page_index_pair r = (page_number r, image_index r)"

text \<open>
  The tile \<^verbatim>\<open>main.py\<close> builds for a record when its texture can be built, and the
  condition that it can.
\<close>

definition renders :: "'img pillow \<Rightarrow> bytes \<Rightarrow> bool" where
  "renders pil data = (\<not> isl (get_texture pil data))"

definition tile_of :: "'img pillow \<Rightarrow> image_record \<Rightarrow> ImageItem" where
  "tile_of pil r =
     \<lparr>img_data = raw_bytes r,
      name = ''p'' @ str_nat (page_number r) @ ''_i'' @ str_nat (image_index r) @ ''.png'',
      checkbox = False,
      texture = (case get_texture pil (raw_bytes r) of Inr tex \<Rightarrow> tex | Inl e \<Rightarrow> [])\<rparr>"

text \<open>
  A path the file system accepts for writing, the effect of a list of writes on the files,
  and a run of writes that stops at the first refusal, as each export loop does.
\<close>

definition writable :: "filesystem \<Rightarrow> string \<Rightarrow> bool" where
  "writable fs path =
     (path \<noteq> [] \<and> last path \<noteq> CHR ''/'' \<and> \<not> is_dir fs (node_of path)
      \<and> is_dir fs (parent (node_of path)) \<and> \<not> is_file fs (parent (node_of path))
      \<and> node_of path \<notin> denied fs)"

definition put_all :: "(node \<rightharpoonup> bytes) \<Rightarrow> (string \<times> bytes) list \<Rightarrow> (node \<rightharpoonup> bytes)" where
  "put_all m ws = foldl (\<lambda>m' (path, data). m'(node_of path \<mapsto> data)) m ws"

fun write_seq :: "(string \<times> bytes) list \<Rightarrow> filesystem \<Rightarrow> nat \<Rightarrow> filesystem \<times> (error + nat)" where
  "write_seq [] fs count = (fs, Inr count)"
| "write_seq ((path, data) # ws) fs count =
     (case write_file fs path data of
        Inl e \<Rightarrow> (fs, Inl e)
      | Inr fs' \<Rightarrow> write_seq ws fs' (count + 1))"

text \<open>The writes each program's export loop has to make, in order.\<close>

definition gui_selected :: "(string \<rightharpoonup> bool) \<Rightarrow> (string \<times> nat) list \<Rightarrow> (string \<times> nat) list" where
  "gui_selected v2 checkbox_keys = filter (\<lambda>(key, idx). v2 key = Some True) checkbox_keys"

definition gui_plan :: "string \<Rightarrow> (string \<rightharpoonup> bool) \<Rightarrow> image_record list \<Rightarrow>
    (string \<times> nat) list \<Rightarrow> (string \<times> bytes) list" where
  "gui_plan out v2 images checkbox_keys =
     map (\<lambda>(key, idx). (path_join out (gui_fname (page_number (images ! idx))
                                                   (image_index (images ! idx))),
                          raw_bytes (images ! idx)))
       (gui_selected v2 checkbox_keys)"

definition window_keys :: "nat \<Rightarrow> (string \<times> nat) list" where
  "window_keys n = map (\<lambda>idx. (''-CHK'' @ str_nat idx @ ''-'', idx)) [0..<n]"

definition save_plan :: "string \<Rightarrow> ImageItem list \<Rightarrow> (string \<times> bytes) list" where
  "save_plan folder items =
     map (\<lambda>item. (path_join folder (name item), img_data item)) (filter checkbox items)"

definition checked_thumbs :: "(QCheckBox \<times> bytes) list \<Rightarrow> (QCheckBox \<times> bytes) list" where
  "checked_thumbs ts = filter (\<lambda>(chk, data). chk_checked chk) ts"

definition export_plan :: "string \<Rightarrow> (QCheckBox \<Rightarrow> string) \<Rightarrow> (QCheckBox \<times> bytes) list \<Rightarrow>
    (string \<times> bytes) list" where
  "export_plan out fname ts =
     map (\<lambda>(chk, data). (path_join out (fname chk), data)) (checked_thumbs ts)"

section \<open>Sample inputs\<close>

text \<open>
  Concrete documents, libraries and file systems on which the results below are run: a
  two-page document without images, the three-page document with two, no and one image, a
  document whose first page has none, an image library that cannot decode the bytes
  \<open>[12]\<close>, and a file system with the directory \<^verbatim>\<open>out\<close> in which the first image's
  file may not be written.
\<close>

definition blank_doc :: document where
  "blank_doc = \<lparr>page_images = [[], []], image_bytes = (\<lambda>xref. [])\<rparr>"

definition sample_doc :: document where
  "sample_doc = \<lparr>page_images = [[(10, []), (11, [])], [], [(12, [])]],
                  image_bytes = (\<lambda>xref. [of_nat xref])\<rparr>"

definition late_doc :: document where
  "late_doc = \<lparr>page_images = [[], [(7, [])]], image_bytes = (\<lambda>xref. [of_nat xref])\<rparr>"

definition sample_lib :: pdf_library where
  "sample_lib = [''blank.pdf'' \<mapsto> blank_doc, ''doc.pdf'' \<mapsto> sample_doc, ''late.pdf'' \<mapsto> late_doc]"

definition sample_pil :: "bytes pillow" where
  "sample_pil = \<lparr>Image_open = (\<lambda>b. if b = [12] then None else Some b),
                  thumbnail = (\<lambda>img size. img),
                  save_png = (\<lambda>img. Some (137 # img))\<rparr>"

definition new_PDFExtractor :: PDFExtractor where
  "new_PDFExtractor = \<lparr>container = [], extracted = [], save_popup_open = False, done_popups = []\<rparr>"

definition sample_fs :: filesystem where
  "sample_fs = \<lparr>dirs = {(False, [''out''])},
                 files = [(False, [''blank.pdf'']) \<mapsto> [], (False, [''doc.pdf'']) \<mapsto> []],
                 denied = {(False, [''out'', ''img_p1_i1.png'']), (False, [''out'', ''p1_i1.png'']),
                           (False, [''out'', ''img_P1_I1.png''])}\<rparr>"

definition good_pil :: "bytes pillow" where
  "good_pil = \<lparr>Image_open = (\<lambda>b. Some b), thumbnail = (\<lambda>img size. img),
                save_png = (\<lambda>img. Some (137 # img))\<rparr>"

text \<open>
  The thumbnail pair \<^verbatim>\<open>display_thumbs\<close> adds for a record, and the condition that its
  pixmap can be built.
\<close>

definition thumb_of :: "image_record \<Rightarrow> QCheckBox \<times> bytes" where
  "thumb_of r = (\<lparr>chk_text = chk_label (page_number r) (image_index r), chk_checked = False\<rparr>,
                 raw_bytes r)"

definition shows_pixmap :: "'img pillow \<Rightarrow> bytes \<Rightarrow> bool" where
  "shows_pixmap pil data = (\<not> isl (bytes_to_pixmap pil data))"

definition new_MainApp :: MainApp where
  "new_MainApp = \<lparr>thumbs = [], grid = [], app_settings = init_settings ''/home/user'',
                  progress_maximum = 0, progress_value = 0, logView = [],
                  btnExport_enabled = False\<rparr>"

definition sample_images :: "image_record list" where
  "sample_images = [(1, 1, [10]), (1, 2, [11]), (3, 1, [12])]"

text \<open>
  Sessions of the three programs on the sample images, with given check states: the
  items of \<^verbatim>\<open>main.py\<close>, the thumbnail list of \<^verbatim>\<open>extractor_pro.py\<close>, and the
  selection window and window values of \<^verbatim>\<open>extract_images_gui.py\<close>.
\<close>

definition sample_items :: "bool list \<Rightarrow> ImageItem list" where
  "sample_items active =
     map (\<lambda>(b, item). item\<lparr>checkbox := b\<rparr>) (zip active (map (tile_of good_pil) sample_images))"

definition sample_extractor :: "bool list \<Rightarrow> PDFExtractor" where
  "sample_extractor active =
     \<lparr>container = sample_items active, extracted = sample_items active,
      save_popup_open = True, done_popups = []\<rparr>"

definition sample_app :: "bool list \<Rightarrow> MainApp" where
  "sample_app checked =
     new_MainApp\<lparr>thumbs := map (\<lambda>(b, (chk, data)). (chk\<lparr>chk_checked := b\<rparr>, data))
                               (zip checked (map thumb_of sample_images)),
                 btnExport_enabled := True\<rparr>"

definition sample_window :: selection_window where
  "sample_window =
     (case build_selection_window good_pil sample_images of
        Inr (checkbox_keys, img_rows) \<Rightarrow>
          \<lparr>sel_keys = checkbox_keys, sel_rows = img_rows, sel_images = sample_images,
           sel_out = ''out/'', sel_open = True\<rparr>
      | Inl e \<Rightarrow>
          \<lparr>sel_keys = [], sel_rows = [], sel_images = [], sel_out = [], sel_open = False\<rparr>)"

definition sample_v2 :: "bool list \<Rightarrow> (string \<rightharpoonup> bool)" where
  "sample_v2 checked = map_of (zip (map fst (window_keys 3)) checked)"

section \<open>What the harvest loops compute\<close>

lemma harvest_page_append:
  "harvest_page doc p es images =
     images @ map (\<lambda>(img_idx, img). (p + 1, img_idx + 1, extract_image doc (fst img))) es"
  by (induction es arbitrary: images) (auto simp: Let_def)

lemma harvest_pages_concat:
  "harvest_pages doc ps images = images @ concat (map (page_records doc) ps)"
  by (induction ps arbitrary: images) (simp_all add: harvest_page_append page_records_def)

lemma run_pages_images:
  "snd (run_pages doc t ps (progress, images)) = harvest_pages doc ps images"
  by (induction ps arbitrary: progress images) (simp_all add: Let_def)

lemma run_pages_progress:
  "fst (run_pages doc t ps (progress, images)) = progress @ map (\<lambda>p. (p + 1, t)) ps"
  by (induction ps arbitrary: progress images) (simp_all add: Let_def)

section \<open>Decimal names\<close>

lemma digit_char_of: "d < 10 \<Longrightarrow> of_char (digit_char d) = 48 + d"
  by (simp add: digit_char_def)

lemma digit_val_char: "d < 10 \<Longrightarrow> digit_val (digit_char d) = d"
  by (simp add: digit_val_def digit_char_of)

lemma nat_of_str_snoc: "nat_of_str (s @ [c]) = 10 * nat_of_str s + digit_val c"
  by (simp add: nat_of_str_def)

lemma nat_of_str_nat: "nat_of_str (str_nat n) = n"
proof (induction n rule: str_nat.induct)
  case (1 n)
  show ?case
  proof (cases "n < 10")
    case True
    then show ?thesis by (simp add: str_nat.simps[of n] nat_of_str_def digit_val_char)
  next
    case False
    then have "nat_of_str (str_nat (n div 10)) = n div 10" using 1 by simp
    with False show ?thesis
      by (simp add: str_nat.simps[of n] nat_of_str_snoc digit_val_char)
  qed
qed

lemma str_nat_inj: "str_nat a = str_nat b \<Longrightarrow> a = b"
  by (metis nat_of_str_nat)

lemma str_nat_digits: "c \<in> set (str_nat n) \<Longrightarrow> 48 \<le> (of_char c :: nat) \<and> (of_char c :: nat) < 58"
proof (induction n rule: str_nat.induct)
  case (1 n)
  show ?case
  proof (cases "n < 10")
    case True
    with 1(2) show ?thesis by (simp add: str_nat.simps[of n] digit_char_of)
  next
    case False
    with 1 show ?thesis
      by (auto simp add: str_nat.simps[of n] digit_char_of)
  qed
qed

lemma str_nat_no_underscore: "CHR ''_'' \<notin> set (str_nat n)"
  using str_nat_digits[of "CHR ''_''" n] by auto
lemma str_nat_no_dash: "CHR ''-'' \<notin> set (str_nat n)"
  using str_nat_digits[of "CHR ''-''" n] by auto
lemma str_nat_no_slash: "CHR ''/'' \<notin> set (str_nat n)"
  using str_nat_digits[of "CHR ''/''" n] by auto
lemma str_nat_nonempty: "str_nat n \<noteq> []"
  by (subst str_nat.simps) simp

section \<open>The harvest as a function of the document\<close>

lemma upt_pages:
  "\<forall>j < length pgs. page_images doc ! (k + j) = pgs ! j \<Longrightarrow>
   concat (map (page_records doc) [k..<k + length pgs]) = records_from doc k pgs"
proof (induction pgs arbitrary: k)
  case Nil
  then show ?case by simp
next
  case (Cons pg pgs)
  have h0: "page_images doc ! k = pg" using Cons.prems by force
  have "\<forall>j < length pgs. page_images doc ! (Suc k + j) = pgs ! j"
    using Cons.prems by force
  then have ih: "concat (map (page_records doc) [Suc k..<Suc k + length pgs]) = records_from doc (Suc k) pgs"
    by (rule Cons.IH)
  have e: "[k..<k + length (pg # pgs)] = k # [Suc k..<Suc k + length pgs]"
    by (simp add: upt_conv_Cons del: upt_Suc)
  have pk: "page_records doc k =
      map (\<lambda>(i, img). (k + 1, i + 1, extract_image doc (fst img))) (enumerate 0 pg)"
    using h0 by (simp add: page_records_def get_images_def)
  show ?case unfolding e using ih pk by (simp del: upt_Suc)
qed

lemma harvest_records_from:
  "harvest_pages doc [0..<page_count doc] [] = records_from doc 0 (page_images doc)"
  using upt_pages[of "page_images doc" doc 0]
  by (simp add: harvest_pages_concat page_count_def)

lemma records_from_length: "length (records_from doc k pgs) = sum_list (map length pgs)"
  by (induction pgs arbitrary: k) simp_all

lemma records_from_pages: "r \<in> set (records_from doc k pgs) \<Longrightarrow> k < page_number r \<and> page_number r \<le> k + length pgs"
  by (induction pgs arbitrary: k) (fastforce simp: page_number_def)+

lemma page_numbers_one_page:
  "map page_number (map (\<lambda>(i, img). (k + 1, i + 1, extract_image doc (fst img))) es)
     = replicate (length es) (k + 1)"
  by (induction es) (auto simp: page_number_def)

lemma records_from_sorted: "sorted (map page_number (records_from doc k pgs))"
proof (induction pgs arbitrary: k)
  case Nil
  then show ?case by simp
next
  case (Cons pg pgs)
  have b: "\<forall>r \<in> set (records_from doc (k + 1) pgs). k + 1 < page_number r"
    using records_from_pages by blast
  have "map page_number (records_from doc k (pg # pgs)) =
      replicate (length pg) (k + 1) @ map page_number (records_from doc (k + 1) pgs)"
    using page_numbers_one_page[of k doc "enumerate 0 pg"] by simp
  then show ?case using b Cons.IH[of "k+1"]
    by (auto simp: sorted_append)
qed

lemma page_pairs_one_page:
  "map page_index_pair (map (\<lambda>(i, img). (k + 1, i + 1, extract_image doc (fst img))) (enumerate n pg))
     = map (\<lambda>i. (k + 1, i + 1)) [n..<n + length pg]"
  by (induction pg arbitrary: n)
     (simp_all add: page_index_pair_def page_number_def image_index_def upt_conv_Cons del: upt_Suc)

lemma records_from_distinct: "distinct (map page_index_pair (records_from doc k pgs))"
proof (induction pgs arbitrary: k)
  case Nil
  then show ?case by simp
next
  case (Cons pg pgs)
  have b: "\<forall>r \<in> set (records_from doc (k + 1) pgs). k + 1 < page_number r"
    using records_from_pages by blast
  have e: "map page_index_pair (records_from doc k (pg # pgs)) =
      map (\<lambda>i. (k + 1, i + 1)) [0..<0 + length pg] @ map page_index_pair (records_from doc (k + 1) pgs)"
    using page_pairs_one_page[of k doc 0 pg] by simp
  have d: "distinct (map (\<lambda>i. (k + 1, i + 1)) [0..<0 + length pg])"
    by (simp add: distinct_map inj_on_def)
  have b': "\<forall>x \<in> set (map page_index_pair (records_from doc (k + 1) pgs)). k + 1 < fst x"
    using b by (simp add: page_index_pair_def)
  have a: "\<forall>x \<in> set (map (\<lambda>i. (k + 1, i + 1)) [0..<0 + length pg]). fst x = k + 1"
    by auto
  have disj: "set (map (\<lambda>i. (k + 1, i + 1)) [0..<0 + length pg])
      \<inter> set (map page_index_pair (records_from doc (k + 1) pgs)) = {}"
    using a b' by fastforce
  show ?case unfolding e distinct_append using d disj Cons.IH[of "k+1"]
    by blast
qed

section \<open>Tiles of \<^verbatim>\<open>main.py\<close>\<close>

lemma item_init_renders:
  "renders pil d \<Longrightarrow> ImageItem_init pil d (item_name pn i) = Inr (tile_of pil (pn + 1, i + 1, d))"
  by (cases "get_texture pil d")
     (simp_all add: renders_def ImageItem_init_def tile_of_def item_name_def raw_bytes_def
        page_number_def image_index_def)

lemma extract_page_renders:
  "list_all (\<lambda>r. renders pil (raw_bytes r))
     (map (\<lambda>(i, img). (pn + 1, i + 1, extract_image doc (fst img))) es) \<Longrightarrow>
   extract_page pil doc pn es self =
     (self\<lparr>container := container self
               @ map (tile_of pil) (map (\<lambda>(i, img). (pn + 1, i + 1, extract_image doc (fst img))) es),
           extracted := extracted self
               @ map (tile_of pil) (map (\<lambda>(i, img). (pn + 1, i + 1, extract_image doc (fst img))) es)\<rparr>,
      None)"
proof (induction es arbitrary: self)
  case Nil
  then show ?case by simp
next
  case (Cons e es)
  obtain i img where e: "e = (i, img)" by (cases e)
  have r: "renders pil (extract_image doc (fst img))"
    using Cons.prems by (simp add: e raw_bytes_def)
  have rest: "list_all (\<lambda>r. renders pil (raw_bytes r))
     (map (\<lambda>(i, img). (pn + 1, i + 1, extract_image doc (fst img))) es)"
    using Cons.prems by simp
  show ?case
    by (simp add: e Let_def item_init_renders[OF r] Cons.IH[OF rest])
qed

lemma extract_pages_renders:
  "list_all (\<lambda>r. renders pil (raw_bytes r)) (concat (map (page_records doc) ps)) \<Longrightarrow>
   extract_pages pil doc ps self =
     (self\<lparr>container := container self @ map (tile_of pil) (concat (map (page_records doc) ps)),
           extracted := extracted self @ map (tile_of pil) (concat (map (page_records doc) ps))\<rparr>,
      None)"
proof (induction ps arbitrary: self)
  case Nil
  then show ?case by simp
next
  case (Cons p ps)
  have a: "list_all (\<lambda>r. renders pil (raw_bytes r))
     (map (\<lambda>(i, img). (p + 1, i + 1, extract_image doc (fst img))) (enumerate 0 (get_images doc p)))"
    using Cons.prems by (simp add: page_records_def)
  have b: "list_all (\<lambda>r. renders pil (raw_bytes r)) (concat (map (page_records doc) ps))"
    using Cons.prems by simp
  show ?case
    by (simp add: extract_page_renders[OF a] Cons.IH[OF b] page_records_def)
qed

lemma harvest_concat_records:
  "concat (map (page_records doc) [0..<page_count doc]) = records_from doc 0 (page_images doc)"
  using upt_pages[of "page_images doc" doc 0] by (simp add: page_count_def)

lemma extract_images_renders:
  assumes "lib pdf_path = Some doc"
    and "list_all (\<lambda>r. renders pil (raw_bytes r)) (records_from doc 0 (page_images doc))"
  shows "extract_images pil lib self pdf_path =
     (self\<lparr>container := map (tile_of pil) (records_from doc 0 (page_images doc)),
           extracted := map (tile_of pil) (records_from doc 0 (page_images doc))\<rparr>, None)"
proof -
  have a: "list_all (\<lambda>r. renders pil (raw_bytes r)) (concat (map (page_records doc) [0..<page_count doc]))"
    using assms(2) by (simp only: harvest_concat_records)
  show ?thesis
    using assms(1)
    by (simp add: extract_images_def fitz_open_def Let_def extract_pages_renders[OF a]
        harvest_concat_records)
qed

lemma extract_images_from_pdf_records:
  "lib pdf_path = Some doc \<Longrightarrow>
   extract_images_from_pdf lib pdf_path = Inr (records_from doc 0 (page_images doc))"
  by (simp add: extract_images_from_pdf_def fitz_open_def harvest_records_from)

lemma ExtractThread_run_records:
  "lib pdf_path = Some doc \<Longrightarrow>
   ExtractThread_run lib pdf_path =
     Inr (map (\<lambda>p. (p + 1, page_count doc)) [0..<page_count doc],
          records_from doc 0 (page_images doc))"
  using run_pages_images[of doc "page_count doc" "[0..<page_count doc]" "[]" "[]"]
        run_pages_progress[of doc "page_count doc" "[0..<page_count doc]" "[]" "[]"]
  by (simp add: ExtractThread_run_def fitz_open_def Let_def harvest_records_from prod_eq_iff)

section \<open>File names and paths\<close>

lemma sep_split_unique:
  "c \<notin> set a \<Longrightarrow> c \<notin> set a' \<Longrightarrow> a @ c # r = a' @ c # r' \<Longrightarrow> a = a' \<and> r = r'"
proof (induction a arbitrary: a')
  case Nil
  then show ?case by (cases a') auto
next
  case (Cons x a)
  then show ?case by (cases a') auto
qed

lemma counter_name_inj:
  assumes "pre @ str_nat p @ CHR ''_'' # m @ str_nat i @ suf
         = pre @ str_nat p' @ CHR ''_'' # m @ str_nat i' @ suf"
  shows "p = p' \<and> i = i'"
proof -
  have "str_nat p @ CHR ''_'' # (m @ str_nat i @ suf) = str_nat p' @ CHR ''_'' # (m @ str_nat i' @ suf)"
    using assms by simp
  then have a: "str_nat p = str_nat p'" and b: "m @ str_nat i @ suf = m @ str_nat i' @ suf"
    using sep_split_unique[OF str_nat_no_underscore str_nat_no_underscore] by blast+
  from b have "str_nat i = str_nat i'" by simp
  with a show ?thesis by (simp add: str_nat_inj)
qed

lemma gui_fname_inj: "gui_fname p i = gui_fname p' i' \<Longrightarrow> p = p' \<and> i = i'"
  using counter_name_inj[of "''img_p''" p "''i''" i "''.png''" p' i']
  by (simp add: gui_fname_def)

lemma tile_name_inj:
  "name (tile_of pil r) = name (tile_of pil r') \<Longrightarrow> page_index_pair r = page_index_pair r'"
  using counter_name_inj[of "''p''" "page_number r" "''i''" "image_index r" "''.png''"
      "page_number r'" "image_index r'"]
  by (simp add: tile_of_def page_index_pair_def)

lemma str_nat_plain: "c \<in> set (str_nat n) \<Longrightarrow> c \<noteq> CHR ''/''"
  using str_nat_no_slash by blast

lemma gui_fname_simple: "gui_fname p i \<noteq> [] \<and> CHR ''/'' \<notin> set (gui_fname p i)"
  using str_nat_no_slash by (auto simp: gui_fname_def)

lemma tile_name_simple: "name (tile_of pil r) \<noteq> [] \<and> CHR ''/'' \<notin> set (name (tile_of pil r))"
  using str_nat_no_slash by (auto simp: tile_of_def)

lemma split_from_cur:
  "split_from sep cur s = (cur @ hd (split_from sep [] s)) # tl (split_from sep [] s)"
proof (induction s arbitrary: cur)
  case Nil
  then show ?case by simp
next
  case (Cons c s)
  show ?case
  proof (cases "c = sep")
    case True
    then show ?thesis by simp
  next
    case False
    have "split_from sep (cur @ [c]) s = ((cur @ [c]) @ hd (split_from sep [] s)) # tl (split_from sep [] s)"
      by (rule Cons.IH)
    moreover have "split_from sep [c] s = ([c] @ hd (split_from sep [] s)) # tl (split_from sep [] s)"
      using Cons.IH[of "[c]"] by simp
    ultimately show ?thesis using False by simp
  qed
qed

lemma split_from_plain: "sep \<notin> set s \<Longrightarrow> split_from sep cur s = [cur @ s]"
  by (induction s arbitrary: cur) auto

lemma split_from_sep:
  "sep \<notin> set a \<Longrightarrow> split_from sep cur (a @ sep # b) = (cur @ a) # split_from sep [] b"
  by (induction a arbitrary: cur) auto

lemma split_from_last:
  "sep \<notin> set n \<Longrightarrow> split_from sep cur (a @ sep # n) = split_from sep cur a @ [n]"
proof (induction a arbitrary: cur)
  case Nil
  then show ?case by (simp add: split_from_plain)
next
  case (Cons c a)
  then show ?case by simp
qed

lemma str_split_label:
  "str_split (chk_label p i) CHR ''-'' = [''P'' @ str_nat p, ''I'' @ str_nat i]"
  using split_from_sep[of "CHR ''-''" "''P'' @ str_nat p" "[]" "''I'' @ str_nat i"]
    str_nat_no_dash[of p] str_nat_no_dash[of i]
  by (simp add: str_split_def chk_label_def split_from_plain)

lemma join_absolute:
  "n \<noteq> [] \<Longrightarrow> CHR ''/'' \<notin> set n \<Longrightarrow>
   (take 1 (path_join out n) = ''/'') = (take 1 out = ''/'')"
  by (cases out; cases n) (auto simp: path_join_def)

lemma join_segments:
  assumes "n \<noteq> []" and "CHR ''/'' \<notin> set n"
  shows "filter (\<lambda>s. s \<noteq> []) (str_split (path_join out n) CHR ''/'')
       = filter (\<lambda>s. s \<noteq> []) (str_split out CHR ''/'') @ [n]"
proof -
  have t: "take 1 n \<noteq> ''/''" using assms by (cases n) auto
  show ?thesis
  proof (cases "out = []")
    case True
    then show ?thesis using assms t
      by (simp add: path_join_def str_split_def split_from_plain)
  next
    case False
    show ?thesis
    proof (cases "last out = CHR ''/''")
      case True
      then obtain o' where o': "out = o' @ [CHR ''/'']"
        using False by (metis append_butlast_last_id)
      have j: "path_join out n = o' @ CHR ''/'' # n"
        using t by (simp add: path_join_def o')
      have "split_from CHR ''/'' [] (o' @ CHR ''/'' # n) = split_from CHR ''/'' [] o' @ [n]"
        by (rule split_from_last[OF assms(2)])
      moreover have "split_from CHR ''/'' [] (o' @ CHR ''/'' # []) = split_from CHR ''/'' [] o' @ [[]]"
        by (rule split_from_last) simp
      ultimately show ?thesis unfolding j using assms(1)
        by (simp add: str_split_def o')
    next
      case l: False
      have j: "path_join out n = out @ CHR ''/'' # n"
        using t l False by (simp add: path_join_def)
      have "split_from CHR ''/'' [] (out @ CHR ''/'' # n) = split_from CHR ''/'' [] out @ [n]"
        by (rule split_from_last[OF assms(2)])
      then show ?thesis unfolding j using assms(1)
        by (simp add: str_split_def)
    qed
  qed
qed

lemma node_of_join:
  assumes "n \<noteq> []" and "CHR ''/'' \<notin> set n"
  shows "node_of (path_join out n) = (fst (node_of out), snd (node_of out) @ [n])"
  using join_absolute[OF assms, of out] join_segments[OF assms, of out]
  by (simp add: node_of_def)

lemma join_last:
  "n \<noteq> [] \<Longrightarrow> CHR ''/'' \<notin> set n \<Longrightarrow> path_join out n \<noteq> [] \<and> last (path_join out n) \<noteq> CHR ''/''"
  by (cases n rule: rev_cases) (auto simp: path_join_def)

lemma writable_join:
  assumes "n \<noteq> []" and "CHR ''/'' \<notin> set n"
  shows "writable fs (path_join out n) \<longleftrightarrow>
    (is_dir fs (node_of out) \<and> \<not> is_file fs (node_of out)
     \<and> (fst (node_of out), snd (node_of out) @ [n]) \<notin> dirs fs
     \<and> (fst (node_of out), snd (node_of out) @ [n]) \<notin> denied fs)"
  using join_last[OF assms, of out]
  by (auto simp: writable_def node_of_join[OF assms] parent_def is_dir_def)

section \<open>Runs of writes and the export loops\<close>

lemma write_file_writable:
  "writable fs path \<Longrightarrow> write_file fs path data = Inr (fs\<lparr>files := (files fs)(node_of path \<mapsto> data)\<rparr>)"
  by (simp add: write_file_def writable_def Let_def)

lemma write_file_refused:
  "\<not> writable fs path \<Longrightarrow> write_file fs path data = Inl OSError"
  by (auto simp add: write_file_def writable_def Let_def)

lemma writable_after_write:
  "writable fs q \<Longrightarrow> writable (fs\<lparr>files := (files fs)(node_of q \<mapsto> d)\<rparr>) p = writable fs p"
  by (auto simp: writable_def is_dir_def is_file_def)

lemma put_all_Cons: "put_all m ((p, d) # ws) = put_all (m(node_of p \<mapsto> d)) ws"
  by (simp add: put_all_def)

lemma put_all_snoc: "put_all m (ws @ [(p, d)]) = (put_all m ws)(node_of p \<mapsto> d)"
  by (simp add: put_all_def)

lemma put_all_Nil: "put_all m [] = m"
  by (simp add: put_all_def)

lemma put_all_other:
  "n \<notin> set (map (\<lambda>w. node_of (fst w)) ws) \<Longrightarrow> put_all m ws n = m n"
  by (induction ws arbitrary: m) (auto simp: put_all_Cons put_all_Nil)

lemma put_all_hit:
  "distinct (map (\<lambda>w. node_of (fst w)) ws) \<Longrightarrow> (p, d) \<in> set ws \<Longrightarrow>
   put_all m ws (node_of p) = Some d"
proof (induction ws arbitrary: m)
  case Nil
  then show ?case by simp
next
  case (Cons w ws)
  obtain q e where w: "w = (q, e)" by (cases w)
  show ?case
  proof (cases "(p, d) = w")
    case True
    have "node_of (fst w) \<notin> set (map (\<lambda>w. node_of (fst w)) ws)"
      using Cons.prems(1) by simp
    moreover have "p = fst w" using True by auto
    ultimately have "node_of p \<notin> set (map (\<lambda>w. node_of (fst w)) ws)"
      by simp
    then show ?thesis using True w by (simp add: put_all_Cons put_all_other)
  next
    case False
    then have "(p, d) \<in> set ws" using Cons.prems(2) by simp
    moreover have "distinct (map (\<lambda>w. node_of (fst w)) ws)" using Cons.prems(1) by simp
    ultimately show ?thesis using w by (simp add: put_all_Cons Cons.IH)
  qed
qed

lemma write_seq_all:
  "list_all (\<lambda>w. writable fs (fst w)) ws \<Longrightarrow>
   files (fst (write_seq ws fs c)) = put_all (files fs) ws
   \<and> snd (write_seq ws fs c) = Inr (c + length ws)"
proof (induction ws arbitrary: fs c)
  case Nil
  then show ?case by (simp add: put_all_Nil)
next
  case (Cons w ws)
  obtain p d where w: "w = (p, d)" by (cases w)
  let ?fs' = "fs\<lparr>files := (files fs)(node_of p \<mapsto> d)\<rparr>"
  have wp: "writable fs p" using Cons.prems w by simp
  have step: "write_seq (w # ws) fs c = write_seq ws ?fs' (c + 1)"
    by (simp add: w write_file_writable[OF wp])
  have "list_all (\<lambda>w. writable ?fs' (fst w)) ws"
    using Cons.prems by (simp add: writable_after_write[OF wp])
  then have ih: "files (fst (write_seq ws ?fs' (c + 1))) = put_all (files ?fs') ws
      \<and> snd (write_seq ws ?fs' (c + 1)) = Inr (c + 1 + length ws)"
    by (rule Cons.IH)
  have f: "put_all (files ?fs') ws = put_all (files fs) (w # ws)"
    by (simp add: w put_all_Cons)
  have n: "c + 1 + length ws = c + length (w # ws)" by simp
  from ih show ?case unfolding step f n .
qed

lemma write_seq_stops:
  "list_all (\<lambda>w. writable fs (fst w)) pre \<Longrightarrow> \<not> writable fs p \<Longrightarrow>
   files (fst (write_seq (pre @ (p, d) # post) fs c)) = put_all (files fs) pre
   \<and> snd (write_seq (pre @ (p, d) # post) fs c) = Inl OSError"
proof (induction pre arbitrary: fs c)
  case Nil
  then show ?case by (simp add: put_all_Nil write_file_refused)
next
  case (Cons w pre)
  obtain q e where w: "w = (q, e)" by (cases w)
  let ?fs' = "fs\<lparr>files := (files fs)(node_of q \<mapsto> e)\<rparr>"
  have wq: "writable fs q" using Cons.prems w by simp
  have step: "write_seq ((w # pre) @ (p, d) # post) fs c = write_seq (pre @ (p, d) # post) ?fs' (c + 1)"
    by (simp add: w write_file_writable[OF wq])
  have a: "list_all (\<lambda>w. writable ?fs' (fst w)) pre"
    using Cons.prems by (simp add: writable_after_write[OF wq])
  have b: "\<not> writable ?fs' p"
    using Cons.prems by (simp add: writable_after_write[OF wq])
  have ih: "files (fst (write_seq (pre @ (p, d) # post) ?fs' (c + 1))) = put_all (files ?fs') pre
      \<and> snd (write_seq (pre @ (p, d) # post) ?fs' (c + 1)) = Inl OSError"
    by (rule Cons.IH[OF a b])
  have f: "put_all (files ?fs') pre = put_all (files fs) (w # pre)"
    by (simp add: w put_all_Cons)
  from ih show ?case unfolding step f .
qed

lemma write_seq_dirs: "dirs (fst (write_seq ws fs c)) = dirs fs \<and> denied (fst (write_seq ws fs c)) = denied fs"
proof (induction ws arbitrary: fs c)
  case Nil
  then show ?case by simp
next
  case (Cons w ws)
  obtain p d where w: "w = (p, d)" by (cases w)
  show ?case
  proof (cases "writable fs p")
    case True
    then show ?thesis using Cons.IH by (simp add: w write_file_writable)
  next
    case False
    then show ?thesis by (simp add: w write_file_refused)
  qed
qed

lemma save_loop_plan: "save_loop folder items fs c = write_seq (save_plan folder items) fs c"
  by (induction items arbitrary: fs c) (auto simp: save_plan_def split: sum.splits)

lemma download_loop_plan:
  "list_all (\<lambda>k. snd k < length images) keys \<Longrightarrow>
   download_loop out v2 images keys fs c = write_seq (gui_plan out v2 images keys) fs c"
proof (induction keys arbitrary: fs c)
  case Nil
  then show ?case by (simp add: gui_plan_def gui_selected_def)
next
  case (Cons k keys)
  obtain key idx where k: "k = (key, idx)" by (cases k)
  obtain p i d where r: "images ! idx = (p, i, d)" by (cases "images ! idx")
  have ih: "download_loop out v2 images keys fs' c' = write_seq (gui_plan out v2 images keys) fs' c'"
    for fs' c' using Cons by simp
  have lt: "idx < length images" using Cons.prems k by simp
  show ?case using lt
    by (simp add: k r ih gui_plan_def gui_selected_def page_number_def image_index_def
        raw_bytes_def split: sum.splits)
qed

lemma export_loop_plan:
  "list_all (\<lambda>t. export_fname (pattern (app_settings self)) (fst t) = Inr (fname (fst t)))
     (checked_thumbs ts) \<Longrightarrow>
   \<exists>pv. export_loop out ts (fs, self) c =
     ((fst (write_seq (export_plan out fname ts) fs c), self\<lparr>progress_value := pv\<rparr>),
      map_sum Raises id (snd (write_seq (export_plan out fname ts) fs c)))"
proof (induction ts arbitrary: fs self c)
  case Nil
  show ?case
    by (rule exI[of _ "progress_value self"]) (simp add: export_plan_def checked_thumbs_def)
next
  case (Cons t ts)
  obtain chk d where t: "t = (chk, d)" by (cases t)
  show ?case
  proof (cases "chk_checked chk")
    case False
    then have "list_all (\<lambda>t. export_fname (pattern (app_settings self)) (fst t) = Inr (fname (fst t)))
        (checked_thumbs ts)"
      using Cons.prems t by (simp add: checked_thumbs_def)
    from Cons.IH[OF this, of fs c] show ?thesis
      using False by (simp add: t export_plan_def checked_thumbs_def)
  next
    case True
    have f: "export_fname (pattern (app_settings self)) chk = Inr (fname chk)"
      using Cons.prems t True by (simp add: checked_thumbs_def)
    have rest: "list_all (\<lambda>t. export_fname (pattern (app_settings (self\<lparr>progress_value := c + 1\<rparr>))) (fst t)
        = Inr (fname (fst t))) (checked_thumbs ts)"
      using Cons.prems t True by (simp add: checked_thumbs_def)
    have plan: "export_plan out fname (t # ts) = (path_join out (fname chk), d) # export_plan out fname ts"
      using True by (simp add: t export_plan_def checked_thumbs_def)
    show ?thesis
    proof (cases "write_file fs (path_join out (fname chk)) d")
      case (Inl e)
      show ?thesis unfolding plan
        by (rule exI[of _ "progress_value self"]) (simp add: t True f Inl)
    next
      case (Inr fs')
      from Cons.IH[OF rest, of fs' "c + 1"] obtain pv where
        "export_loop out ts (fs', self\<lparr>progress_value := c + 1\<rparr>) (c + 1) =
          ((fst (write_seq (export_plan out fname ts) fs' (c + 1)),
            self\<lparr>progress_value := c + 1\<rparr>\<lparr>progress_value := pv\<rparr>),
           map_sum Raises id (snd (write_seq (export_plan out fname ts) fs' (c + 1))))"
        by blast
      then show ?thesis unfolding plan
        by (intro exI[of _ pv]) (simp add: t True f Inr id_def)
    qed
  qed
qed

lemma str_format_default:
  "str_format ''img_P{page}_I{idx}.png'' page idx = Inr (''img_P'' @ page @ ''_I'' @ idx @ ''.png'')"
  by (simp add: str_format_def field_value_def emit_def)

lemma export_fname_default:
  "chk_text chk = chk_label p i \<Longrightarrow>
   export_fname ''img_P{page}_I{idx}.png'' chk = Inr (''img_P'' @ str_nat p @ ''_I'' @ str_nat i @ ''.png'')"
  by (simp add: export_fname_def str_split_label str_format_default)

lemma records_from_nil: "sum_list (map length pgs) = 0 \<Longrightarrow> records_from doc k pgs = []"
  by (induction pgs arbitrary: k) simp_all

lemma makedirs_keeps_files: "makedirs fs out ok = Inr fs' \<Longrightarrow> files fs' = files fs"
  by (auto simp: makedirs_def Let_def split: if_splits)

section \<open>Results\<close>

text \<open>
  C5. A PDF that opens and holds no embedded image gives the empty session and no error in
  all three harvesters; \<^verbatim>\<open>extract_images_gui.py\<close> then reports \<^verbatim>\<open>No images found.\<close>
  and stays in its main window. A path that does not open gives \<open>FileDataError\<close>, a
  different outcome.
\<close>

theorem empty_pdf_empty_session:
  assumes "lib pdf_path = Some doc" and "image_total doc = 0"
  shows "extract_images_from_pdf lib pdf_path = Inr []
    \<and> ExtractThread_run lib pdf_path =
        Inr (map (\<lambda>p. (p + 1, page_count doc)) [0..<page_count doc], [])
    \<and> extract_images pil lib self pdf_path = (self\<lparr>container := [], extracted := []\<rparr>, None)
    \<and> (\<forall>fs out fs'. pdf_path \<noteq> [] \<and> out \<noteq> [] \<and> path_isfile fs pdf_path
          \<and> makedirs fs out True = Inr fs' \<longrightarrow>
        gui_load pil lib fs pdf_path out = (fs', [PopupInfo [''No images found.'']], Continue))
    \<and> (\<forall>bad. lib bad = None \<longrightarrow>
          extract_images_from_pdf lib bad = Inl FileDataError
          \<and> extract_images_from_pdf lib bad \<noteq> extract_images_from_pdf lib pdf_path)"
proof -
  have e: "records_from doc 0 (page_images doc) = []"
    using assms(2) by (simp add: image_total_def records_from_nil)
  have a: "extract_images_from_pdf lib pdf_path = Inr []"
    using extract_images_from_pdf_records[of lib pdf_path doc] assms(1) e by simp
  have b: "ExtractThread_run lib pdf_path =
        Inr (map (\<lambda>p. (p + 1, page_count doc)) [0..<page_count doc], [])"
    using ExtractThread_run_records[of lib pdf_path doc] assms(1) e by simp
  have c: "extract_images pil lib self pdf_path = (self\<lparr>container := [], extracted := []\<rparr>, None)"
    using extract_images_renders[of lib pdf_path doc pil self] assms(1) e by simp
  have d: "gui_load pil lib fs pdf_path out = (fs', [PopupInfo [''No images found.'']], Continue)"
    if "pdf_path \<noteq> [] \<and> out \<noteq> [] \<and> path_isfile fs pdf_path \<and> makedirs fs out True = Inr fs'"
    for fs out fs'
    using that a by (simp add: gui_load_def)
  have f: "extract_images_from_pdf lib bad = Inl FileDataError
          \<and> extract_images_from_pdf lib bad \<noteq> extract_images_from_pdf lib pdf_path"
    if "lib bad = None" for bad
    using that a by (simp add: extract_images_from_pdf_def fitz_open_def)
  show ?thesis using a b c d f by blast
qed

lemma sample_makedirs: "makedirs sample_fs ''out'' True = Inr sample_fs"
  by (simp add: makedirs_def node_of_def str_split_def is_dir_def sample_fs_def)

theorem empty_pdf_empty_session_witness:
  "extract_images_from_pdf sample_lib ''blank.pdf'' = Inr []
   \<and> ExtractThread_run sample_lib ''blank.pdf'' = Inr ([(1, 2), (2, 2)], [])
   \<and> extract_images sample_pil sample_lib new_PDFExtractor ''blank.pdf'' = (new_PDFExtractor, None)
   \<and> gui_load sample_pil sample_lib sample_fs ''blank.pdf'' ''out''
       = (sample_fs, [PopupInfo [''No images found.'']], Continue)
   \<and> extract_images_from_pdf sample_lib ''none.pdf'' = Inl FileDataError"
proof -
  have l: "sample_lib ''blank.pdf'' = Some blank_doc" by (simp add: sample_lib_def)
  have t: "image_total blank_doc = 0" by (simp add: image_total_def blank_doc_def)
  have n: "sample_lib ''none.pdf'' = None" by (simp add: sample_lib_def)
  have g: "''blank.pdf'' \<noteq> [] \<and> ''out'' \<noteq> [] \<and> path_isfile sample_fs ''blank.pdf''
      \<and> makedirs sample_fs ''out'' True = Inr sample_fs"
    by (simp add: sample_makedirs)
       (simp add: path_isfile_def is_file_def node_of_def str_split_def sample_fs_def)
  have u: "[0..<page_count blank_doc] = [0, 1]"
    by (simp add: page_count_def blank_doc_def upt_conv_Cons)
  have s: "new_PDFExtractor\<lparr>container := [], extracted := []\<rparr> = new_PDFExtractor"
    by (simp add: new_PDFExtractor_def)
  show ?thesis
    using empty_pdf_empty_session[of sample_lib "''blank.pdf''" blank_doc sample_pil new_PDFExtractor] l t g n u s
    by (simp add: page_count_def blank_doc_def)
qed

lemma tile_names_distinct:
  assumes "distinct (map page_index_pair recs)"
  shows "distinct (map name (map (tile_of pil) recs))"
proof -
  have d: "distinct recs" and i: "inj_on page_index_pair (set recs)"
    using assms by (simp_all add: distinct_map)
  have "inj_on (\<lambda>r. name (tile_of pil r)) (set recs)"
  proof (rule inj_onI)
    fix x y
    assume "x \<in> set recs" "y \<in> set recs" "name (tile_of pil x) = name (tile_of pil y)"
    then show "x = y" using i tile_name_inj[of pil x y] by (auto dest: inj_onD)
  qed
  with d show ?thesis by (simp add: distinct_map comp_def)
qed

lemma str_nat_small:
  "str_nat 0 = ''0''" "str_nat 1 = ''1''" "str_nat 2 = ''2''" "str_nat 3 = ''3''"
  by code_simp+

text \<open>
  C1 (as amended). For a PDF that opens, with N image references over its pages,
  \<^verbatim>\<open>extract_images_from_pdf\<close> and \<^verbatim>\<open>ExtractThread.run\<close> return exactly N records,
  with pairwise distinct (page, index) pairs and non-decreasing page numbers.
  \<^verbatim>\<open>PDFExtractor.extract_images\<close> builds each tile inside the harvest loop: it holds
  one item per record, with the record's bytes and pairwise distinct names, when every
  tile's texture can be built.
\<close>

theorem harvest_records:
  assumes "lib pdf_path = Some doc"
  shows "extract_images_from_pdf lib pdf_path = Inr (records_from doc 0 (page_images doc))
    \<and> ExtractThread_run lib pdf_path =
        Inr (map (\<lambda>p. (p + 1, page_count doc)) [0..<page_count doc],
             records_from doc 0 (page_images doc))
    \<and> length (records_from doc 0 (page_images doc)) = image_total doc
    \<and> distinct (map page_index_pair (records_from doc 0 (page_images doc)))
    \<and> sorted (map page_number (records_from doc 0 (page_images doc)))
    \<and> (list_all (\<lambda>r. renders pil (raw_bytes r)) (records_from doc 0 (page_images doc)) \<longrightarrow>
          extract_images pil lib self pdf_path =
            (self\<lparr>container := map (tile_of pil) (records_from doc 0 (page_images doc)),
                  extracted := map (tile_of pil) (records_from doc 0 (page_images doc))\<rparr>, None)
          \<and> distinct (map name (map (tile_of pil) (records_from doc 0 (page_images doc)))))"
proof -
  have a: "extract_images_from_pdf lib pdf_path = Inr (records_from doc 0 (page_images doc))"
    using extract_images_from_pdf_records[of lib pdf_path doc] assms by simp
  have b: "ExtractThread_run lib pdf_path =
        Inr (map (\<lambda>p. (p + 1, page_count doc)) [0..<page_count doc],
             records_from doc 0 (page_images doc))"
    using ExtractThread_run_records[of lib pdf_path doc] assms by simp
  have c: "length (records_from doc 0 (page_images doc)) = image_total doc"
    by (simp add: records_from_length image_total_def)
  have d: "distinct (map page_index_pair (records_from doc 0 (page_images doc)))"
    by (rule records_from_distinct)
  have e: "sorted (map page_number (records_from doc 0 (page_images doc)))"
    by (rule records_from_sorted)
  have f: "extract_images pil lib self pdf_path =
            (self\<lparr>container := map (tile_of pil) (records_from doc 0 (page_images doc)),
                  extracted := map (tile_of pil) (records_from doc 0 (page_images doc))\<rparr>, None)"
    if "list_all (\<lambda>r. renders pil (raw_bytes r)) (records_from doc 0 (page_images doc))"
    using extract_images_renders[of lib pdf_path doc pil self] assms that by simp
  have g: "distinct (map name (map (tile_of pil) (records_from doc 0 (page_images doc))))"
    using d by (rule tile_names_distinct)
  show ?thesis using a b c d e f g by blast
qed

theorem harvest_records_witness:
  "sample_lib ''doc.pdf'' = Some sample_doc
   \<and> list_all (\<lambda>r. renders good_pil (raw_bytes r)) (records_from sample_doc 0 (page_images sample_doc))
   \<and> records_from sample_doc 0 (page_images sample_doc) = [(1, 1, [10]), (1, 2, [11]), (3, 1, [12])]
   \<and> extract_images_from_pdf sample_lib ''doc.pdf''
        = Inr (records_from sample_doc 0 (page_images sample_doc))
   \<and> length (records_from sample_doc 0 (page_images sample_doc)) = image_total sample_doc
   \<and> extract_images good_pil sample_lib new_PDFExtractor ''doc.pdf'' =
        (new_PDFExtractor
           \<lparr>container := map (tile_of good_pil) (records_from sample_doc 0 (page_images sample_doc)),
            extracted := map (tile_of good_pil) (records_from sample_doc 0 (page_images sample_doc))\<rparr>,
         None)
   \<and> map name (map (tile_of good_pil) (records_from sample_doc 0 (page_images sample_doc)))
        = [''p1_i1.png'', ''p1_i2.png'', ''p3_i1.png'']"
proof -
  have l: "sample_lib ''doc.pdf'' = Some sample_doc" by (simp add: sample_lib_def)
  have r: "list_all (\<lambda>r. renders good_pil (raw_bytes r))
      (records_from sample_doc 0 (page_images sample_doc))"
    by code_simp
  have v: "records_from sample_doc 0 (page_images sample_doc)
      = [(1, 1, [10]), (1, 2, [11]), (3, 1, [12])]"
    by code_simp
  have n: "map name (map (tile_of good_pil) (records_from sample_doc 0 (page_images sample_doc)))
        = [''p1_i1.png'', ''p1_i2.png'', ''p3_i1.png'']"
    by code_simp
  show ?thesis
    using harvest_records[of sample_lib "''doc.pdf''" sample_doc good_pil new_PDFExtractor] l r v n
    by blast
qed

theorem harvest_records_counterexample:
  "sample_lib ''doc.pdf'' = Some sample_doc \<and> image_total sample_doc = 3
   \<and> snd (extract_images sample_pil sample_lib new_PDFExtractor ''doc.pdf'')
        = Some UnidentifiedImageError
   \<and> map name (extracted (fst (extract_images sample_pil sample_lib new_PDFExtractor ''doc.pdf'')))
        = [''p1_i1.png'', ''p1_i2.png'']"
proof -
  have l: "sample_lib ''doc.pdf'' = Some sample_doc" by (simp add: sample_lib_def)
  have t: "image_total sample_doc = 3" by code_simp
  have e: "snd (extract_images sample_pil sample_lib new_PDFExtractor ''doc.pdf'')
        = Some UnidentifiedImageError"
    by code_simp
  have n: "map name (extracted (fst (extract_images sample_pil sample_lib new_PDFExtractor ''doc.pdf'')))
        = [''p1_i1.png'', ''p1_i2.png'']"
    by code_simp
  show ?thesis using l t e n by blast
qed

lemma one_page_indices:
  "map image_index (map (\<lambda>(i, img). (k + 1, i + 1, extract_image doc (fst img))) (enumerate n pg))
     = [n + 1..<n + length pg + 1]"
  by (induction pg arbitrary: n) (simp_all add: image_index_def upt_conv_Cons del: upt_Suc)

lemma one_page_filter:
  "filter (\<lambda>r. page_number r = p) (map (\<lambda>(i, img). (k + 1, i + 1, extract_image doc (fst img))) es)
     = (if p = k + 1 then map (\<lambda>(i, img). (k + 1, i + 1, extract_image doc (fst img))) es else [])"
  by (induction es) (auto simp: page_number_def)

lemma records_from_indices:
  "map image_index (filter (\<lambda>r. page_number r = p) (records_from doc k pgs))
     = (if k < p \<and> p \<le> k + length pgs then [1..<length (pgs ! (p - k - 1)) + 1] else [])"
proof (induction pgs arbitrary: k)
  case Nil
  then show ?case by simp
next
  case (Cons pg pgs)
  have ih: "map image_index (filter (\<lambda>r. page_number r = p) (records_from doc (k + 1) pgs))
     = (if k + 1 < p \<and> p \<le> k + 1 + length pgs then [1..<length (pgs ! (p - (k + 1) - 1)) + 1] else [])"
    by (rule Cons.IH)
  have here: "map image_index (map (\<lambda>(i, img). (k + 1, i + 1, extract_image doc (fst img))) (enumerate 0 pg))
     = [1..<length pg + 1]"
    using one_page_indices[of k doc 0 pg] by simp
  note f = one_page_filter[of p k doc "enumerate 0 pg"]
  consider "p = k + 1" | "k + 1 < p" | "p \<le> k" by linarith
  then show ?case
  proof cases
    case 1
    then show ?thesis using ih here f by (simp del: upt_Suc)
  next
    case 2
    then have "(pg # pgs) ! (p - k - 1) = pgs ! (p - (k + 1) - 1)"
      by (simp add: nth_Cons')
    then show ?thesis using 2 ih f by (simp del: upt_Suc)
  next
    case 3
    then show ?thesis using ih f by (simp del: upt_Suc)
  qed
qed

lemma records_from_first:
  "records_from doc k pgs \<noteq> [] \<Longrightarrow>
   page_number (hd (records_from doc k pgs)) = k + length (takeWhile (\<lambda>pg. pg = []) pgs) + 1"
proof (induction pgs arbitrary: k)
  case Nil
  then show ?case by simp
next
  case (Cons pg pgs)
  show ?case
  proof (cases pg)
    case Nil
    then have "records_from doc (k + 1) pgs \<noteq> []" using Cons.prems by simp
    from Cons.IH[OF this] show ?thesis using Nil by simp
  next
    case (Cons e es)
    then show ?thesis by (simp add: page_number_def case_prod_unfold)
  qed
qed

text \<open>
  C7 (as amended). In every session returned by \<^verbatim>\<open>extract_images_from_pdf\<close> or
  \<^verbatim>\<open>ExtractThread.run\<close>, the image indices of the records of page number \<open>p\<close> are
  exactly 1 up to the number of images of that page, in this order, and the page number of
  the first record is the number of the first page that has an image: one more than the
  number of leading pages without images.
\<close>

theorem harvest_numbering:
  assumes "lib pdf_path = Some doc"
  shows "extract_images_from_pdf lib pdf_path = Inr (records_from doc 0 (page_images doc))
    \<and> ExtractThread_run lib pdf_path =
        Inr (map (\<lambda>p. (p + 1, page_count doc)) [0..<page_count doc],
             records_from doc 0 (page_images doc))
    \<and> (\<forall>p. map image_index (filter (\<lambda>r. page_number r = p) (records_from doc 0 (page_images doc)))
          = (if 1 \<le> p \<and> p \<le> page_count doc
             then [1..<length (page_images doc ! (p - 1)) + 1] else []))
    \<and> (records_from doc 0 (page_images doc) \<noteq> [] \<longrightarrow>
          page_number (hd (records_from doc 0 (page_images doc)))
            = length (takeWhile (\<lambda>pg. pg = []) (page_images doc)) + 1)"
proof -
  have a: "extract_images_from_pdf lib pdf_path = Inr (records_from doc 0 (page_images doc))"
    using extract_images_from_pdf_records[of lib pdf_path doc] assms by simp
  have b: "ExtractThread_run lib pdf_path =
        Inr (map (\<lambda>p. (p + 1, page_count doc)) [0..<page_count doc],
             records_from doc 0 (page_images doc))"
    using ExtractThread_run_records[of lib pdf_path doc] assms by simp
  have c: "map image_index (filter (\<lambda>r. page_number r = p) (records_from doc 0 (page_images doc)))
          = (if 1 \<le> p \<and> p \<le> page_count doc
             then [1..<length (page_images doc ! (p - 1)) + 1] else [])" for p
    using records_from_indices[of p doc 0 "page_images doc"]
    by (auto simp: page_count_def)
  have d: "page_number (hd (records_from doc 0 (page_images doc)))
            = length (takeWhile (\<lambda>pg. pg = []) (page_images doc)) + 1"
    if "records_from doc 0 (page_images doc) \<noteq> []"
    using records_from_first[OF that] by simp
  show ?thesis using a b c d by blast
qed

theorem harvest_numbering_witness:
  "sample_lib ''doc.pdf'' = Some sample_doc
   \<and> records_from sample_doc 0 (page_images sample_doc) \<noteq> []
   \<and> extract_images_from_pdf sample_lib ''doc.pdf''
        = Inr (records_from sample_doc 0 (page_images sample_doc))
   \<and> map image_index (filter (\<lambda>r. page_number r = 1) (records_from sample_doc 0 (page_images sample_doc)))
        = [1, 2]
   \<and> map image_index (filter (\<lambda>r. page_number r = 2) (records_from sample_doc 0 (page_images sample_doc)))
        = []
   \<and> page_number (hd (records_from sample_doc 0 (page_images sample_doc))) = 1"
proof -
  have l: "sample_lib ''doc.pdf'' = Some sample_doc" by (simp add: sample_lib_def)
  have n: "records_from sample_doc 0 (page_images sample_doc) \<noteq> []" by code_simp
  have v1: "(if 1 \<le> (1::nat) \<and> 1 \<le> page_count sample_doc
             then [1..<length (page_images sample_doc ! (1 - 1)) + 1] else []) = [1, 2]"
    by code_simp
  have v2: "(if 1 \<le> (2::nat) \<and> 2 \<le> page_count sample_doc
             then [1..<length (page_images sample_doc ! (2 - 1)) + 1] else []) = []"
    by code_simp
  have v3: "length (takeWhile (\<lambda>pg. pg = []) (page_images sample_doc)) + 1 = 1"
    by code_simp
  show ?thesis
    using harvest_numbering[of sample_lib "''doc.pdf''" sample_doc] l n v1 v2 v3
    by metis
qed

theorem harvest_numbering_counterexample:
  "sample_lib ''late.pdf'' = Some late_doc
   \<and> extract_images_from_pdf sample_lib ''late.pdf'' = Inr [(2, 1, [7])]
   \<and> ExtractThread_run sample_lib ''late.pdf'' = Inr ([(1, 2), (2, 2)], [(2, 1, [7])])
   \<and> page_number (hd [(2, 1, [7])]) \<noteq> 1"
proof -
  have l: "sample_lib ''late.pdf'' = Some late_doc" by (simp add: sample_lib_def)
  have a: "extract_images_from_pdf sample_lib ''late.pdf'' = Inr [(2, 1, [7])]" by code_simp
  have b: "ExtractThread_run sample_lib ''late.pdf'' = Inr ([(1, 2), (2, 2)], [(2, 1, [7])])"
    by code_simp
  have c: "page_number (hd [(2, 1, [7::8 word])]) \<noteq> 1" by code_simp
  show ?thesis using l a b c by blast
qed

lemma item_init_fails:
  "\<not> renders pil d \<Longrightarrow> \<exists>e. ImageItem_init pil d nm = Inl e"
  by (cases "get_texture pil d") (simp_all add: renders_def ImageItem_init_def)

lemma extract_page_prefix:
  "extracted (fst (extract_page pil doc pn es self)) =
     extracted self @ map (tile_of pil)
       (takeWhile (\<lambda>r. renders pil (raw_bytes r))
          (map (\<lambda>(i, img). (pn + 1, i + 1, extract_image doc (fst img))) es))
   \<and> (snd (extract_page pil doc pn es self) = None) =
       list_all (\<lambda>r. renders pil (raw_bytes r))
          (map (\<lambda>(i, img). (pn + 1, i + 1, extract_image doc (fst img))) es)"
proof (induction es arbitrary: self)
  case Nil
  then show ?case by simp
next
  case (Cons e es)
  obtain i img where e: "e = (i, img)" by (cases e)
  show ?case
  proof (cases "renders pil (extract_image doc (fst img))")
    case True
    show ?thesis
      using Cons.IH[of "self\<lparr>container := container self @ [tile_of pil (pn + 1, i + 1, extract_image doc (fst img))],
                     extracted := extracted self @ [tile_of pil (pn + 1, i + 1, extract_image doc (fst img))]\<rparr>"]
      by (simp add: e Let_def item_init_renders[OF True] True raw_bytes_def)
  next
    case False
    then obtain err where "ImageItem_init pil (extract_image doc (fst img)) (item_name pn i) = Inl err"
      using item_init_fails by blast
    then show ?thesis using False by (simp add: e Let_def raw_bytes_def)
  qed
qed

lemma extract_pages_prefix:
  "extracted (fst (extract_pages pil doc ps self)) =
     extracted self @ map (tile_of pil)
       (takeWhile (\<lambda>r. renders pil (raw_bytes r)) (concat (map (page_records doc) ps)))
   \<and> (snd (extract_pages pil doc ps self) = None) =
       list_all (\<lambda>r. renders pil (raw_bytes r)) (concat (map (page_records doc) ps))"
proof (induction ps arbitrary: self)
  case Nil
  then show ?case by simp
next
  case (Cons p ps)
  let ?R = "\<lambda>r. renders pil (raw_bytes r)"
  let ?A = "page_records doc p"
  let ?B = "concat (map (page_records doc) ps)"
  obtain s1 e1 where r1: "extract_page pil doc p (enumerate 0 (get_images doc p)) self = (s1, e1)"
    by (cases "extract_page pil doc p (enumerate 0 (get_images doc p)) self")
  have p1: "extracted s1 = extracted self @ map (tile_of pil) (takeWhile ?R ?A)"
    and p2: "(e1 = None) = list_all ?R ?A"
    using extract_page_prefix[of pil doc p "enumerate 0 (get_images doc p)" self] r1
    by (simp_all add: page_records_def)
  show ?case
  proof (cases e1)
    case None
    then have all: "list_all ?R ?A" using p2 by simp
    then have tw: "takeWhile ?R (?A @ ?B) = ?A @ takeWhile ?R ?B"
      by (simp add: takeWhile_append2 list_all_iff)
    have tA: "takeWhile ?R ?A = ?A" using all by (simp add: list_all_iff)
    show ?thesis using Cons.IH[of s1] None r1 p1 all tw tA by simp
  next
    case (Some err)
    then have "\<not> list_all ?R ?A" using p2 by simp
    then obtain x where "x \<in> set ?A" "\<not> ?R x" by (auto simp: list_all_iff)
    then have tw: "takeWhile ?R (?A @ ?B) = takeWhile ?R ?A"
      by (simp add: takeWhile_append1)
    show ?thesis using Some r1 p1 p2 tw by simp
  qed
qed

lemma extract_images_prefix:
  assumes "lib pdf_path = Some doc"
  shows "extracted (fst (extract_images pil lib self pdf_path)) =
     map (tile_of pil)
       (takeWhile (\<lambda>r. renders pil (raw_bytes r)) (records_from doc 0 (page_images doc)))
   \<and> (snd (extract_images pil lib self pdf_path) = None) =
       list_all (\<lambda>r. renders pil (raw_bytes r)) (records_from doc 0 (page_images doc))"
  using assms
    extract_pages_prefix[of pil doc "[0..<page_count doc]" "self\<lparr>container := [], extracted := []\<rparr>"]
  by (simp add: extract_images_def fitz_open_def Let_def harvest_concat_records)

lemma display_loop_prefix:
  "thumbs (fst (display_loop pil images row col self)) =
     thumbs self @ map thumb_of (takeWhile (\<lambda>r. shows_pixmap pil (raw_bytes r)) images)
   \<and> (snd (display_loop pil images row col self) = None) =
       list_all (\<lambda>r. shows_pixmap pil (raw_bytes r)) images
   \<and> btnExport_enabled (fst (display_loop pil images row col self)) = btnExport_enabled self
   \<and> logView (fst (display_loop pil images row col self)) = logView self"
proof (induction images arbitrary: row col self)
  case Nil
  then show ?case by simp
next
  case (Cons r images)
  obtain page idx data where r: "r = (page, idx, data)" by (cases r)
  show ?case
  proof (cases "bytes_to_pixmap pil data")
    case (Inl e)
    then show ?thesis by (simp add: r shows_pixmap_def raw_bytes_def)
  next
    case (Inr pix)
    let ?s = "self\<lparr>grid := grid self @ [(row, col, pix)],
                     thumbs := thumbs self @ [(\<lparr>chk_text = chk_label page idx, chk_checked = False\<rparr>, data)]\<rparr>"
    show ?thesis
      using Cons.IH[of "row + 1" 0 ?s] Cons.IH[of row "col + 1" ?s] Inr
      by (simp add: r shows_pixmap_def raw_bytes_def Let_def thumb_of_def page_number_def
          image_index_def)
  qed
qed

lemma display_thumbs_prefix:
  "thumbs (fst (display_thumbs pil self images)) =
     map thumb_of (takeWhile (\<lambda>r. shows_pixmap pil (raw_bytes r)) images)
   \<and> (snd (display_thumbs pil self images) = None) =
       list_all (\<lambda>r. shows_pixmap pil (raw_bytes r)) images
   \<and> (snd (display_thumbs pil self images) \<noteq> None \<longrightarrow>
        btnExport_enabled (fst (display_thumbs pil self images)) = btnExport_enabled self
        \<and> logView (fst (display_thumbs pil self images)) = logView self)"
proof -
  obtain s e where d: "display_loop pil images 0 0 (self\<lparr>grid := [], thumbs := []\<rparr>) = (s, e)"
    by (cases "display_loop pil images 0 0 (self\<lparr>grid := [], thumbs := []\<rparr>)")
  show ?thesis
    using display_loop_prefix[of pil images 0 0 "self\<lparr>grid := [], thumbs := []\<rparr>"] d
    by (cases e) (simp_all add: display_thumbs_def)
qed

lemma build_rows_fails:
  "\<not> list_all (\<lambda>e. \<not> isl (create_thumbnail pil (raw_bytes (snd e)) (150, 150))) es \<Longrightarrow>
   isl (build_rows pil es acc)"
proof (induction es arbitrary: acc)
  case Nil
  then show ?case by simp
next
  case (Cons e es)
  obtain idx pnum inum d where e: "e = (idx, pnum, inum, d)" by (cases e) auto
  obtain ks rs where acc: "acc = (ks, rs)" by (cases acc)
  show ?case
  proof (cases "create_thumbnail pil d (150, 150)")
    case (Inl err)
    then show ?thesis by (simp add: e acc Let_def)
  next
    case (Inr th)
    then have "\<not> list_all (\<lambda>e. \<not> isl (create_thumbnail pil (raw_bytes (snd e)) (150, 150))) es"
      using Cons.prems by (simp add: e raw_bytes_def)
    from Cons.IH[OF this] show ?thesis using Inr by (simp add: e acc Let_def)
  qed
qed

lemma takeWhile_shorter:
  "x \<in> set xs \<Longrightarrow> \<not> P x \<Longrightarrow> length (takeWhile P xs) < length xs"
  by (induction xs) auto

text \<open>
  C4 (as amended). For bytes that \<^verbatim>\<open>Image.open\<close> cannot decode, the thumbnail renderer of
  each program raises \<open>UnidentifiedImageError\<close>, and no program catches it for that one
  image. \<^verbatim>\<open>build_selection_window\<close> builds no window, and \<^verbatim>\<open>main\<close> ends after its
  error popup. \<^verbatim>\<open>display_thumbs\<close> and \<^verbatim>\<open>extract_images\<close> stop with the exception at
  the first record whose tile cannot be built: the session has tiles exactly for the
  records before it, fewer than there are records. No placeholder tile is made.
\<close>

theorem undecodable_image_stops_tiles:
  assumes "Image_open pil d = None" and "d \<in> raw_bytes ` set images"
  shows "create_thumbnail pil d box = Inl UnidentifiedImageError
    \<and> get_texture pil d = Inl UnidentifiedImageError
    \<and> bytes_to_pixmap pil d = Inl UnidentifiedImageError
    \<and> isl (build_selection_window pil images)
    \<and> (\<forall>lib fs pdf_path out fs'.
          pdf_path \<noteq> [] \<and> out \<noteq> [] \<and> path_isfile fs pdf_path
          \<and> makedirs fs out True = Inr fs' \<and> extract_images_from_pdf lib pdf_path = Inr images \<longrightarrow>
          (\<exists>e. gui_load pil lib fs pdf_path out = (fs', [PopupUnexpected e], Ended)))
    \<and> snd (display_thumbs pil app images) \<noteq> None
    \<and> thumbs (fst (display_thumbs pil app images))
         = map thumb_of (takeWhile (\<lambda>r. shows_pixmap pil (raw_bytes r)) images)
    \<and> length (thumbs (fst (display_thumbs pil app images))) < length images
    \<and> (\<forall>lib pdf_path doc self.
          lib pdf_path = Some doc \<and> records_from doc 0 (page_images doc) = images \<longrightarrow>
          snd (extract_images pil lib self pdf_path) \<noteq> None
          \<and> extracted (fst (extract_images pil lib self pdf_path))
               = map (tile_of pil) (takeWhile (\<lambda>r. renders pil (raw_bytes r)) images)
          \<and> length (extracted (fst (extract_images pil lib self pdf_path))) < length images)"
proof -
  obtain r where r: "r \<in> set images" "raw_bytes r = d" using assms(2) by auto
  have t1: "create_thumbnail pil d box = Inl UnidentifiedImageError" for box
    using assms(1) by (simp add: create_thumbnail_def)
  have t2: "get_texture pil d = Inl UnidentifiedImageError"
    using assms(1) by (simp add: get_texture_def)
  have t3: "bytes_to_pixmap pil d = Inl UnidentifiedImageError"
    using assms(1) by (simp add: bytes_to_pixmap_def)
  have "r \<in> snd ` set (enumerate 0 images)" using r(1) by (simp flip: set_map)
  then obtain e where e: "e \<in> set (enumerate 0 images)" "snd e = r" by blast
  have "\<not> list_all (\<lambda>e. \<not> isl (create_thumbnail pil (raw_bytes (snd e)) (150, 150)))
      (enumerate 0 images)"
  proof -
    have "isl (create_thumbnail pil (raw_bytes (snd e)) (150, 150))"
      using e(2) r(2) t1[of "(150, 150)"] by simp
    then show ?thesis using e(1) by (auto simp: list_all_iff)
  qed
  then have w: "isl (build_selection_window pil images)"
    unfolding build_selection_window_def by (rule build_rows_fails)
  have ne: "images \<noteq> []" using r(1) by auto
  have g: "\<exists>e. gui_load pil lib fs pdf_path out = (fs', [PopupUnexpected e], Ended)"
    if "pdf_path \<noteq> [] \<and> out \<noteq> [] \<and> path_isfile fs pdf_path
          \<and> makedirs fs out True = Inr fs' \<and> extract_images_from_pdf lib pdf_path = Inr images"
    for lib fs pdf_path out fs'
  proof -
    obtain err where "build_selection_window pil images = Inl err"
      using w by (cases "build_selection_window pil images") simp_all
    then show ?thesis using that ne by (simp add: gui_load_def)
  qed
  have np: "\<not> shows_pixmap pil (raw_bytes r)" using t3 r(2) by (simp add: shows_pixmap_def)
  have nr: "\<not> renders pil (raw_bytes r)" using t2 r(2) by (simp add: renders_def)
  have p1: "snd (display_thumbs pil app images) \<noteq> None"
    using display_thumbs_prefix[of pil app images] np r(1) by (auto simp: list_all_iff)
  have p2: "thumbs (fst (display_thumbs pil app images))
         = map thumb_of (takeWhile (\<lambda>r. shows_pixmap pil (raw_bytes r)) images)"
    using display_thumbs_prefix[of pil app images] by blast
  have p3: "length (thumbs (fst (display_thumbs pil app images))) < length images"
    unfolding p2
    using takeWhile_shorter[of r images "\<lambda>r. shows_pixmap pil (raw_bytes r)"] r(1) np by simp
  have m: "snd (extract_images pil lib self pdf_path) \<noteq> None
          \<and> extracted (fst (extract_images pil lib self pdf_path))
               = map (tile_of pil) (takeWhile (\<lambda>r. renders pil (raw_bytes r)) images)
          \<and> length (extracted (fst (extract_images pil lib self pdf_path))) < length images"
    if "lib pdf_path = Some doc \<and> records_from doc 0 (page_images doc) = images"
    for lib pdf_path doc self
  proof -
    have l: "lib pdf_path = Some doc" using that by blast
    have i: "records_from doc 0 (page_images doc) = images" using that by blast
    note x = extract_images_prefix[of lib pdf_path doc pil self, OF l, unfolded i]
    have a: "snd (extract_images pil lib self pdf_path) \<noteq> None"
      using x nr r(1) by (auto simp: list_all_iff)
    have b: "extracted (fst (extract_images pil lib self pdf_path))
               = map (tile_of pil) (takeWhile (\<lambda>r. renders pil (raw_bytes r)) images)"
      using x by blast
    have c: "length (extracted (fst (extract_images pil lib self pdf_path))) < length images"
      unfolding b
      using takeWhile_shorter[of r images "\<lambda>r. renders pil (raw_bytes r)"] r(1) nr by simp
    show ?thesis using a b c by blast
  qed
  have gq: "\<forall>lib fs pdf_path out fs'.
          pdf_path \<noteq> [] \<and> out \<noteq> [] \<and> path_isfile fs pdf_path
          \<and> makedirs fs out True = Inr fs' \<and> extract_images_from_pdf lib pdf_path = Inr images \<longrightarrow>
          (\<exists>e. gui_load pil lib fs pdf_path out = (fs', [PopupUnexpected e], Ended))"
    using g by blast
  have mq: "\<forall>lib pdf_path doc self.
          lib pdf_path = Some doc \<and> records_from doc 0 (page_images doc) = images \<longrightarrow>
          snd (extract_images pil lib self pdf_path) \<noteq> None
          \<and> extracted (fst (extract_images pil lib self pdf_path))
               = map (tile_of pil) (takeWhile (\<lambda>r. renders pil (raw_bytes r)) images)
          \<and> length (extracted (fst (extract_images pil lib self pdf_path))) < length images"
    using m by blast
  show ?thesis
    by (intro conjI) (rule t1 t2 t3 w gq p1 p2 p3 mq)+
qed

theorem undecodable_image_stops_tiles_witness:
  "Image_open sample_pil [12] = None
   \<and> [12] \<in> raw_bytes ` set sample_images
   \<and> isl (build_selection_window sample_pil sample_images)
   \<and> snd (display_thumbs sample_pil new_MainApp sample_images) \<noteq> None
   \<and> length (thumbs (fst (display_thumbs sample_pil new_MainApp sample_images)))
        < length sample_images"
proof -
  have a: "Image_open sample_pil [12] = None" by code_simp
  have b: "[12] \<in> raw_bytes ` set sample_images"
    by (simp add: raw_bytes_def sample_images_def)
  show ?thesis
    using undecodable_image_stops_tiles[of sample_pil "[12]" sample_images "(150, 150)" new_MainApp]
      a b
    by blast
qed

theorem undecodable_image_counterexample:
  "Image_open sample_pil [10] \<noteq> None \<and> Image_open sample_pil [11] \<noteq> None
   \<and> Image_open sample_pil [12] = None
   \<and> extract_images_from_pdf sample_lib ''doc.pdf'' = Inr sample_images
   \<and> build_selection_window sample_pil sample_images = Inl UnidentifiedImageError
   \<and> snd (gui_load sample_pil sample_lib sample_fs ''doc.pdf'' ''out'')
        = ([PopupUnexpected UnidentifiedImageError], Ended)
   \<and> map fst (thumbs (fst (display_thumbs sample_pil new_MainApp sample_images)))
        = [\<lparr>chk_text = ''P1-I1'', chk_checked = False\<rparr>, \<lparr>chk_text = ''P1-I2'', chk_checked = False\<rparr>]
   \<and> snd (display_thumbs sample_pil new_MainApp sample_images) = Some UnidentifiedImageError"
proof -
  have a: "Image_open sample_pil [10] \<noteq> None \<and> Image_open sample_pil [11] \<noteq> None
   \<and> Image_open sample_pil [12] = None" by code_simp
  have b: "extract_images_from_pdf sample_lib ''doc.pdf'' = Inr sample_images"
    by code_simp
  have c: "build_selection_window sample_pil sample_images = Inl UnidentifiedImageError"
    by code_simp
  have d: "snd (gui_load sample_pil sample_lib sample_fs ''doc.pdf'' ''out'')
        = ([PopupUnexpected UnidentifiedImageError], Ended)" by code_simp
  have e: "map fst (thumbs (fst (display_thumbs sample_pil new_MainApp sample_images)))
        = [\<lparr>chk_text = ''P1-I1'', chk_checked = False\<rparr>, \<lparr>chk_text = ''P1-I2'', chk_checked = False\<rparr>]"
    by code_simp
  have f: "snd (display_thumbs sample_pil new_MainApp sample_images) = Some UnidentifiedImageError"
    by code_simp
  show ?thesis by (intro conjI) (rule a[THEN conjunct1] a[THEN conjunct2, THEN conjunct1]
      a[THEN conjunct2, THEN conjunct2] b c d e f)+
qed

lemma export_loop_frame:
  "\<exists>pv. snd (fst (export_loop out ts (fs, self) c)) = self\<lparr>progress_value := pv\<rparr>"
proof (induction ts arbitrary: fs self c)
  case Nil
  show ?case by (rule exI[of _ "progress_value self"]) simp
next
  case (Cons t ts)
  obtain chk d where t: "t = (chk, d)" by (cases t)
  show ?case
  proof (cases "chk_checked chk")
    case False
    then show ?thesis using Cons.IH[of fs self c] by (simp add: t)
  next
    case True
    show ?thesis
    proof (cases "export_fname (pattern (app_settings self)) chk")
      case (Inl e)
      show ?thesis by (rule exI[of _ "progress_value self"]) (simp add: t True Inl)
    next
      case (Inr fname)
      show ?thesis
      proof (cases "write_file fs (path_join out fname) d")
        case (Inl e)
        show ?thesis by (rule exI[of _ "progress_value self"]) (simp add: t True Inr Inl)
      next
        case fs': (Inr fs')
        obtain pv where "snd (fst (export_loop out ts (fs', self\<lparr>progress_value := c + 1\<rparr>) (c + 1)))
            = self\<lparr>progress_value := c + 1\<rparr>\<lparr>progress_value := pv\<rparr>"
          using Cons.IH[of fs' "self\<lparr>progress_value := c + 1\<rparr>" "c + 1"] by blast
        then show ?thesis by (intro exI[of _ pv]) (simp add: t True Inr fs')
      qed
    qed
  qed
qed

lemma do_save_frame:
  "(fst (snd (do_save fs self folder)))\<lparr>save_popup_open := save_popup_open self,
       done_popups := done_popups self\<rparr> = self"
  by (simp add: do_save_def split: sum.splits prod.splits)

lemma export_selected_frame:
  "(snd (fst (export_selected fs app out)))\<lparr>progress_maximum := progress_maximum app,
       progress_value := progress_value app, logView := logView app\<rparr> = app"
proof (cases "out = []")
  case True
  then show ?thesis by (simp add: export_selected_def)
next
  case False
  let ?self2 = "app\<lparr>logView := logView app @ [''Exporting to '' @ out],
      progress_maximum := length (filter (\<lambda>(chk, data). chk_checked chk) (thumbs app))\<rparr>"
  obtain pv where pv: "snd (fst (export_loop out (thumbs app) (fs, ?self2) 0)) = ?self2\<lparr>progress_value := pv\<rparr>"
    using export_loop_frame by blast
  obtain fs' s r where e: "export_loop out (thumbs app) (fs, ?self2) 0 = ((fs', s), r)"
    by (cases "export_loop out (thumbs app) (fs, ?self2) 0") auto
  have s: "s = ?self2\<lparr>progress_value := pv\<rparr>" using pv e by simp
  show ?thesis using False e s
    by (cases r) (simp_all add: export_selected_def Let_def)
qed

lemma gui_download_frame:
  "(fst (snd (gui_download fs win v2)))\<lparr>sel_open := sel_open win\<rparr> = win"
  by (simp add: gui_download_def split: sum.splits prod.splits)

text \<open>
  C10. Exporting never changes the session. \<^verbatim>\<open>_do_save\<close> changes nothing of the widget
  but the two popups, so every item keeps its data, name and checkbox;
  \<^verbatim>\<open>export_selected\<close> changes only the progress bar and the log, so \<^verbatim>\<open>self.thumbs\<close>
  keeps every checkbox text, check state and byte string; the download branch of
  \<^verbatim>\<open>extract_images_gui.py\<close> only closes the window, and the records and keys are as
  before. This holds whether the export ends normally or with an exception.
\<close>

theorem export_keeps_session:
  "(fst (snd (do_save fs self folder)))\<lparr>save_popup_open := save_popup_open self,
       done_popups := done_popups self\<rparr> = self
   \<and> extracted (fst (snd (do_save fs self folder))) = extracted self
   \<and> (snd (fst (export_selected fs app out)))\<lparr>progress_maximum := progress_maximum app,
       progress_value := progress_value app, logView := logView app\<rparr> = app
   \<and> thumbs (snd (fst (export_selected fs app out))) = thumbs app
   \<and> (fst (snd (gui_download fs win v2)))\<lparr>sel_open := sel_open win\<rparr> = win
   \<and> sel_images (fst (snd (gui_download fs win v2))) = sel_images win
   \<and> sel_keys (fst (snd (gui_download fs win v2))) = sel_keys win"
proof -
  have a: "extracted (fst (snd (do_save fs self folder))) = extracted self"
    using arg_cong[OF do_save_frame[where fs=fs and self=self and folder=folder], of extracted] by simp
  have b: "thumbs (snd (fst (export_selected fs app out))) = thumbs app"
    using arg_cong[OF export_selected_frame[where fs=fs and app=app and out=out], of thumbs] by simp
  have c: "sel_images (fst (snd (gui_download fs win v2))) = sel_images win"
    using arg_cong[OF gui_download_frame[where fs=fs and win=win and ?v2.0=v2], of sel_images] by simp
  have d: "sel_keys (fst (snd (gui_download fs win v2))) = sel_keys win"
    using arg_cong[OF gui_download_frame[where fs=fs and win=win and ?v2.0=v2], of sel_keys] by simp
  show ?thesis
    by (intro conjI) (rule do_save_frame export_selected_frame gui_download_frame a b c d)+
qed

theorem export_keeps_session_witness:
  "snd (snd (do_save sample_fs (sample_extractor [False, True, False]) ''out/'')) = None
   \<and> read_file (fst (do_save sample_fs (sample_extractor [False, True, False]) ''out/''))
        ''out/p1_i2.png'' = Some [11]
   \<and> extracted (fst (snd (do_save sample_fs (sample_extractor [False, True, False]) ''out/'')))
        = extracted (sample_extractor [False, True, False])
   \<and> snd (export_selected sample_fs (sample_app [False, True, False]) ''out/'') = None
   \<and> thumbs (snd (fst (export_selected sample_fs (sample_app [False, True, False]) ''out/'')))
        = thumbs (sample_app [False, True, False])
   \<and> sel_images (fst (snd (gui_download sample_fs sample_window (sample_v2 [False, True, False]))))
        = sel_images sample_window"
proof -
  have a: "snd (snd (do_save sample_fs (sample_extractor [False, True, False]) ''out/'')) = None"
    by code_simp
  have b: "read_file (fst (do_save sample_fs (sample_extractor [False, True, False]) ''out/''))
        ''out/p1_i2.png'' = Some [11]"
    by code_simp
  have c: "snd (export_selected sample_fs (sample_app [False, True, False]) ''out/'') = None"
    by code_simp
  note t = export_keeps_session[where fs=sample_fs and self="sample_extractor [False, True, False]"
      and folder="''out/''" and app="sample_app [False, True, False]" and out="''out/''"
      and win=sample_window and ?v2.0="sample_v2 [False, True, False]"]
  show ?thesis using a b c t by blast
qed

end
